(* ===== verification/Rito_Prelude.thy ===== *)
theory Rito_Prelude
  imports Main "HOL-Library.Word" "HOL-Library.Sublist"
begin

text \<open>
  Generic material of the development: the C++ result of an operation (a value, an exception
  in flight, or the end of the program), the sequencing and \<open>try\<close>/\<open>catch\<close> combinators over
  an explicit state, decimal rendering (\<open>std::to_string\<close>) and substring search
  (\<open>std::string::find\<close>). The exception type is a parameter here; \<open>Rito_Types\<close> fixes it.
\<close>

named_theorems op_simps "unfolding rules of the sequencing combinators"

subsection \<open>Results of C++ operations\<close>

text \<open>
  An operation returns a value, throws an exception, or ends the program. The last case covers
  \<open>std::terminate\<close> (an exception leaves a \<open>noexcept\<close> function or a destructor) and undefined
  behaviour that the model makes visible (a null \<open>unique_ptr\<close> is dereferenced, an index is out
  of range, an object is used after its destruction). No \<open>catch\<close> clause sees it.
\<close>

datatype 'x abort = Terminate 'x | Null_dereference | Out_of_range | Access_violation | Use_after_free

datatype ('x, 'a) res = Ok 'a | Throw 'x | Abort "'x abort"

fun is_ok :: "('x, 'a) res \<Rightarrow> bool" where
  "is_ok (Ok _) = True"
| "is_ok _ = False"

fun is_throw :: "('x, 'a) res \<Rightarrow> bool" where
  "is_throw (Throw _) = True"
| "is_throw _ = False"

fun is_abort :: "('x, 'a) res \<Rightarrow> bool" where
  "is_abort (Abort _) = True"
| "is_abort _ = False"

type_synonym ('s, 'x, 'a) op = "'s \<Rightarrow> ('x, 'a) res \<times> 's"

definition ret :: "'a \<Rightarrow> ('s, 'x, 'a) op" where
  "ret a = (\<lambda>s. (Ok a, s))"

definition throw :: "'x \<Rightarrow> ('s, 'x, 'a) op" where
  "throw x = (\<lambda>s. (Throw x, s))"

definition andthen :: "('s, 'x, 'a) op \<Rightarrow> ('a \<Rightarrow> ('s, 'x, 'b) op) \<Rightarrow> ('s, 'x, 'b) op" where
  "andthen m f = (\<lambda>s. case m s of
      (Ok a, t) \<Rightarrow> f a t
    | (Throw x, t) \<Rightarrow> (Throw x, t)
    | (Abort b, t) \<Rightarrow> (Abort b, t))"

text \<open>\<open>try { m } catch ...\<close>: the handler gets the exception and rethrows what it does not name.\<close>

definition try_catch :: "('s, 'x, 'a) op \<Rightarrow> ('x \<Rightarrow> ('s, 'x, 'a) op) \<Rightarrow> ('s, 'x, 'a) op" where
  "try_catch m h = (\<lambda>s. case m s of
      (Ok a, t) \<Rightarrow> (Ok a, t)
    | (Throw x, t) \<Rightarrow> h x t
    | (Abort b, t) \<Rightarrow> (Abort b, t))"

text \<open>A \<open>noexcept\<close> function (every destructor is one): an exception that reaches its border ends
  the program.\<close>

definition no_except :: "('s, 'x, 'a) op \<Rightarrow> ('s, 'x, 'a) op" where
  "no_except m = (\<lambda>s. case m s of
      (Ok a, t) \<Rightarrow> (Ok a, t)
    | (Throw x, t) \<Rightarrow> (Abort (Terminate x), t)
    | (Abort b, t) \<Rightarrow> (Abort b, t))"

definition modify :: "('s \<Rightarrow> 's) \<Rightarrow> ('s, 'x, unit) op" where
  "modify f = (\<lambda>s. (Ok (), f s))"

lemma ret_apply [simp, op_simps]: "ret a s = (Ok a, s)"
  by (simp add: ret_def)

lemma throw_apply [simp, op_simps]: "throw x s = (Throw x, s)"
  by (simp add: throw_def)

lemma modify_apply [simp, op_simps]: "modify f s = (Ok (), f s)"
  by (simp add: modify_def)

lemma andthen_ok: "m s = (Ok a, t) \<Longrightarrow> andthen m f s = f a t"
  by (simp add: andthen_def)

lemma andthen_throw: "m s = (Throw x, t) \<Longrightarrow> andthen m f s = (Throw x, t)"
  by (simp add: andthen_def)

lemma andthen_abort: "m s = (Abort b, t) \<Longrightarrow> andthen m f s = (Abort b, t)"
  by (simp add: andthen_def)

lemmas andthen_simps = andthen_ok andthen_throw andthen_abort

lemma andthen_ret [simp, op_simps]: "andthen (ret a) f = f a"
  by (rule ext) (simp add: andthen_def)

lemma andthen_modify [simp, op_simps]: "andthen (modify g) f s = f () (g s)"
  by (simp add: andthen_def)

lemma andthen_assoc: "andthen (andthen m f) g = andthen m (\<lambda>a. andthen (f a) g)"
  by (rule ext) (simp add: andthen_def split: prod.split res.split)

lemma try_catch_ok: "m s = (Ok a, t) \<Longrightarrow> try_catch m h s = (Ok a, t)"
  by (simp add: try_catch_def)

lemma try_catch_throw: "m s = (Throw x, t) \<Longrightarrow> try_catch m h s = h x t"
  by (simp add: try_catch_def)

lemma try_catch_abort: "m s = (Abort b, t) \<Longrightarrow> try_catch m h s = (Abort b, t)"
  by (simp add: try_catch_def)

lemmas try_catch_simps = try_catch_ok try_catch_throw try_catch_abort

lemma no_except_never_throws: "fst (no_except m s) \<noteq> Throw x"
  by (simp add: no_except_def split: prod.split res.split)

lemma snd_no_except [simp]: "snd (no_except m s) = snd (m s)"
  by (simp add: no_except_def split: prod.split res.split)

text \<open>A property of the state that every step keeps is kept by the combinators.\<close>

definition keeps :: "('s \<Rightarrow> 's \<Rightarrow> bool) \<Rightarrow> ('s, 'x, 'a) op \<Rightarrow> bool" where
  "keeps R m = (\<forall>s. R s (snd (m s)))"

lemma keepsI: "(\<And>s. R s (snd (m s))) \<Longrightarrow> keeps R m"
  by (simp add: keeps_def)

lemma keepsD: "keeps R m \<Longrightarrow> R s (snd (m s))"
  by (simp add: keeps_def)

lemma keeps_resD: "keeps R m \<Longrightarrow> m s = (r, t) \<Longrightarrow> R s t"
  by (metis keepsD snd_conv)

lemma keeps_ret: "reflp R \<Longrightarrow> keeps R (ret a)"
  by (simp add: keeps_def reflpD)

lemma keeps_throw: "reflp R \<Longrightarrow> keeps R (throw x)"
  by (simp add: keeps_def reflpD)

lemma keeps_andthen:
  assumes "transp R" and "keeps R m" and "\<And>a. keeps R (f a)"
  shows "keeps R (andthen m f)"
proof (rule keepsI)
  fix s
  obtain r t where ms: "m s = (r, t)" by (cases "m s") auto
  with assms(2) have st: "R s t" by (rule keeps_resD)
  show "R s (snd (andthen m f s))"
  proof (cases r)
    case (Ok a)
    have "R t (snd (f a t))" using assms(3) by (rule keepsD)
    with st assms(1) have "R s (snd (f a t))" by (blast dest: transpD)
    with ms Ok show ?thesis by (simp add: andthen_ok)
  qed (use ms st in \<open>simp_all add: andthen_simps\<close>)
qed

lemma keeps_try_catch:
  assumes "transp R" and "keeps R m" and "\<And>x. keeps R (h x)"
  shows "keeps R (try_catch m h)"
proof (rule keepsI)
  fix s
  obtain r t where ms: "m s = (r, t)" by (cases "m s") auto
  with assms(2) have st: "R s t" by (rule keeps_resD)
  show "R s (snd (try_catch m h s))"
  proof (cases r)
    case (Throw x)
    have "R t (snd (h x t))" using assms(3) by (rule keepsD)
    with st assms(1) have "R s (snd (h x t))" by (blast dest: transpD)
    with ms Throw show ?thesis by (simp add: try_catch_throw)
  qed (use ms st in \<open>simp_all add: try_catch_simps\<close>)
qed

text \<open>An operation that never ends the program.\<close>

named_theorems no_abort "operations that never end the program"

definition never_aborts :: "('s, 'x, 'a) op \<Rightarrow> bool" where
  "never_aborts m \<longleftrightarrow> (\<forall>s. \<not> is_abort (fst (m s)))"

lemma never_abortsI: "(\<And>s. \<not> is_abort (fst (m s))) \<Longrightarrow> never_aborts m"
  by (simp add: never_aborts_def)

lemma never_abortsD: "never_aborts m \<Longrightarrow> m s = (r, t) \<Longrightarrow> r \<noteq> Abort b"
  by (auto simp: never_aborts_def dest: spec [of _ s])

lemma never_aborts_ret [no_abort]: "never_aborts (ret a)"
  by (simp add: never_aborts_def)

lemma never_aborts_throw [no_abort]: "never_aborts (throw x)"
  by (simp add: never_aborts_def)

lemma never_aborts_modify [no_abort]: "never_aborts (modify f)"
  by (simp add: never_aborts_def)

lemma never_aborts_andthen [no_abort]:
  assumes "never_aborts m" and "\<And>a. never_aborts (f a)"
  shows "never_aborts (andthen m f)"
proof (rule never_abortsI)
  fix s
  obtain r t where ms: "m s = (r, t)" by (cases "m s")
  from assms(2) have "\<not> is_abort (fst (f a t))" for a by (simp add: never_aborts_def)
  moreover have "\<not> is_abort r" using assms(1) ms by (metis never_aborts_def fst_conv)
  ultimately show "\<not> is_abort (fst (andthen m f s))"
    using ms by (cases r) (simp_all add: andthen_simps)
qed

lemma never_aborts_try_catch [no_abort]:
  assumes "never_aborts m" and "\<And>x. never_aborts (h x)"
  shows "never_aborts (try_catch m h)"
proof (rule never_abortsI)
  fix s
  obtain r t where ms: "m s = (r, t)" by (cases "m s")
  from assms(2) have "\<not> is_abort (fst (h x t))" for x by (simp add: never_aborts_def)
  moreover have "\<not> is_abort r" using assms(1) ms by (metis never_aborts_def fst_conv)
  ultimately show "\<not> is_abort (fst (try_catch m h s))"
    using ms by (cases r) (simp_all add: try_catch_simps)
qed

subsection \<open>Decimal rendering: \<open>std::to_string\<close> of a non-negative integer\<close>

definition digit_char :: "nat \<Rightarrow> char" where
  "digit_char d = char_of (48 + d)"

fun to_string :: "nat \<Rightarrow> string" where
  "to_string n = (if n < 10 then [digit_char n] else to_string (n div 10) @ [digit_char (n mod 10)])"

declare to_string.simps [simp del]

definition isdigit :: "char \<Rightarrow> bool" where
  "isdigit c \<longleftrightarrow> 48 \<le> (of_char c :: nat) \<and> (of_char c :: nat) \<le> 57"

definition digit_val :: "char \<Rightarrow> nat" where
  "digit_val c = of_char c - 48"

fun decimal_acc :: "nat \<Rightarrow> string \<Rightarrow> nat" where
  "decimal_acc a [] = a"
| "decimal_acc a (c # cs) = decimal_acc (10 * a + digit_val c) cs"

definition decimal :: "string \<Rightarrow> nat" where
  "decimal s = decimal_acc 0 s"

lemma of_char_digit_char: "d < 10 \<Longrightarrow> (of_char (digit_char d) :: nat) = 48 + d"
  by (simp add: digit_char_def)

lemma isdigit_digit_char [simp]: "d < 10 \<Longrightarrow> isdigit (digit_char d)"
  by (simp add: isdigit_def of_char_digit_char)

lemma digit_val_digit_char [simp]: "d < 10 \<Longrightarrow> digit_val (digit_char d) = d"
  by (simp add: digit_val_def of_char_digit_char)

lemma digit_char_eqI: "d < 10 \<Longrightarrow> of_char c = 48 + d \<Longrightarrow> digit_char d = c"
  by (metis of_char_digit_char of_char_eq_iff)

lemma digit_chars [simp]:
  "digit_char 0 = CHR ''0''" "digit_char (Suc 0) = CHR ''1''" "digit_char 1 = CHR ''1''"
  "digit_char 2 = CHR ''2''" "digit_char 3 = CHR ''3''" "digit_char 4 = CHR ''4''"
  "digit_char 5 = CHR ''5''" "digit_char 6 = CHR ''6''" "digit_char 7 = CHR ''7''"
  "digit_char 8 = CHR ''8''" "digit_char 9 = CHR ''9''"
  by (rule digit_char_eqI; simp)+

lemma decimal_acc_append: "decimal_acc a (xs @ ys) = decimal_acc (decimal_acc a xs) ys"
  by (induction xs arbitrary: a) simp_all

lemma decimal_snoc: "decimal (xs @ [c]) = 10 * decimal xs + digit_val c"
  by (simp add: decimal_def decimal_acc_append)

lemma to_string_nonempty [simp]: "to_string n \<noteq> []"
  by (subst to_string.simps) simp

lemma to_string_digits: "list_all isdigit (to_string n)"
proof (induction n rule: to_string.induct)
  case (1 n)
  then show ?case by (subst to_string.simps) simp
qed

theorem decimal_to_string: "decimal (to_string n) = n"
proof (induction n rule: to_string.induct)
  case (1 n)
  show ?case
  proof (cases "n < 10")
    case True
    then show ?thesis by (subst to_string.simps) (simp add: decimal_def)
  next
    case False
    with 1 show ?thesis by (subst to_string.simps) (simp add: decimal_snoc)
  qed
qed

lemma to_string_inject [simp]: "to_string m = to_string n \<longleftrightarrow> m = n"
  by (metis decimal_to_string)

subsection \<open>Substring search: \<open>std::string::find\<close>\<close>

fun starts_with :: "string \<Rightarrow> string \<Rightarrow> bool" where
  "starts_with [] s = True"
| "starts_with (p # ps) [] = False"
| "starts_with (p # ps) (c # cs) = (p = c \<and> starts_with ps cs)"

text \<open>\<open>s.find(p) != std::string::npos\<close>\<close>

fun contains_str :: "string \<Rightarrow> string \<Rightarrow> bool" where
  "contains_str p [] = starts_with p []"
| "contains_str p (c # cs) = (starts_with p (c # cs) \<or> contains_str p cs)"

lemma starts_with_iff: "starts_with p s \<longleftrightarrow> prefix p s"
  by (induction p s rule: starts_with.induct) auto

lemma contains_str_iff: "contains_str p s \<longleftrightarrow> sublist p s"
  by (induction s) (auto simp: starts_with_iff sublist_Cons_right simp del: prefix_Cons)

lemma starts_with_append [simp]: "starts_with p (p @ s)"
  by (simp add: starts_with_iff)

end
