(* ===== verification/Rito_Types.thy ===== *)
theory Rito_Types
  imports Rito_Prelude
begin

text \<open>
  The public types of \<open>include/rito/common_types.h\<close> and \<open>include/rito/exception.h\<close>, and the
  exceptions of the libraries that the code's \<open>catch\<close> clauses tell apart.
\<close>

subsection \<open>Exceptions\<close>

text \<open>The classes of \<open>exception.h\<close>. Every one derives from \<open>rito::Exception\<close>, which derives from
  \<open>std::runtime_error\<close>.\<close>

datatype rito_class =
    Exception
  | Unknown_exception
  | Lcu_not_running_exception
  | Lcu_parameters_exception
  | Path_not_found_exception
  | No_region_selected_exception
  | Wrong_enum_value_exception
  | Websocket_exception
  | Message_exception

text \<open>
  POCO's exception classes, as far as a \<open>catch\<close> clause of the code names one:
  \<open>Poco::TimeoutException\<close>, \<open>Poco::Net::WebSocketException\<close>, \<open>Poco::Net::MessageException\<close>
  (each with its subclasses), any other \<open>Poco::Exception\<close>.
\<close>

datatype poco_class = TimeoutException | WebSocketException | MessageException | Other_poco_exception

text \<open>The standard library's exceptions that the code can raise; \<open>Other_std_exception\<close> is any
  other class that derives from \<open>std::exception\<close>.\<close>

datatype std_class = Invalid_argument | Out_of_range_error | Filesystem_error | Other_std_exception

text \<open>
  An exception object in flight with its \<open>what()\<close>. \<open>Foreign\<close> is a thrown object that is not a
  \<open>std::exception\<close>: a user's callback may throw one.
\<close>

datatype exn =
    Rito rito_class string
  | Poco poco_class string
  | Std std_class string
  | Foreign nat

fun what :: "exn \<Rightarrow> string" where
  "what (Rito _ m) = m"
| "what (Poco _ m) = m"
| "what (Std _ m) = m"
| "what (Foreign _) = []"

text \<open>\<open>catch (std::exception&)\<close>: \<open>Poco::Exception\<close> derives from \<open>std::exception\<close> too.\<close>

fun is_std_exception :: "exn \<Rightarrow> bool" where
  "is_std_exception (Foreign _) = False"
| "is_std_exception _ = True"

text \<open>\<open>catch (Poco::Exception&)\<close>\<close>

fun is_poco_exception :: "exn \<Rightarrow> bool" where
  "is_poco_exception (Poco _ _) = True"
| "is_poco_exception _ = False"

fun is_rito_exception :: "exn \<Rightarrow> bool" where
  "is_rito_exception (Rito _ _) = True"
| "is_rito_exception _ = False"

type_synonym 'a result = "(exn, 'a) res"
type_synonym ('s, 'a) cpp = "('s, exn, 'a) op"

text \<open>
  A call of code outside the repository (POCO, the operating system, a user's callback): it
  returns a value or throws, and may change the environment. It is a parameter of the model.
\<close>

type_synonym ('e, 'a) ext = "'e \<Rightarrow> (exn + 'a) \<times> 'e"

definition lift_ext :: "('e, 'a) ext \<Rightarrow> ('e, 'a) cpp" where
  "lift_ext f = (\<lambda>e. case f e of (Inl x, e') \<Rightarrow> (Throw x, e') | (Inr a, e') \<Rightarrow> (Ok a, e'))"

lemma lift_ext_Inl: "f e = (Inl x, e') \<Longrightarrow> lift_ext f e = (Throw x, e')"
  by (simp add: lift_ext_def)

lemma lift_ext_Inr: "f e = (Inr a, e') \<Longrightarrow> lift_ext f e = (Ok a, e')"
  by (simp add: lift_ext_def)

lemma never_aborts_lift_ext [no_abort]: "never_aborts (lift_ext f)"
  by (simp add: never_aborts_def lift_ext_def split: prod.split sum.split)

lemma lift_ext_cases:
  "(\<exists>x e'. f e = (Inl x, e') \<and> lift_ext f e = (Throw x, e')) \<or>
   (\<exists>a e'. f e = (Inr a, e') \<and> lift_ext f e = (Ok a, e'))"
  by (simp add: lift_ext_def split: prod.split sum.split)

text \<open>A pure function that may throw, as an operation.\<close>

definition of_sum :: "exn + 'a \<Rightarrow> ('s, 'a) cpp" where
  "of_sum r = (\<lambda>s. case r of Inl x \<Rightarrow> (Throw x, s) | Inr a \<Rightarrow> (Ok a, s))"

lemma of_sum_simps [simp, op_simps]:
  "of_sum (Inl x) = throw x"
  "of_sum (Inr a) = ret a"
  by (simp_all add: of_sum_def throw_def ret_def)

lemma never_aborts_of_sum [no_abort]: "never_aborts (of_sum r)"
  by (cases r) (simp_all add: no_abort)

subsection \<open>Operations of an object over its environment\<close>

definition on_env :: "('e, 'a) cpp \<Rightarrow> ('h \<times> 'e, 'a) cpp" where
  "on_env m = (\<lambda>(h, e). case m e of (r, e') \<Rightarrow> (r, (h, e')))"

lemma on_env_apply: "on_env m (h, e) = (r, (h', e')) \<longleftrightarrow> m e = (r, e') \<and> h' = h"
  by (auto simp: on_env_def split: prod.split)

lemma on_env_eq: "m e = (r, e') \<Longrightarrow> on_env m (h, e) = (r, (h, e'))"
  by (simp add: on_env_apply)

lemma never_aborts_on_env [no_abort]: "never_aborts m \<Longrightarrow> never_aborts (on_env m)"
  by (auto simp: never_aborts_def on_env_def split: prod.split) (metis fst_conv)

subsection \<open>Requests and responses\<close>

text \<open>
  \<open>enum class Request_type\<close>. Its underlying type is \<open>int\<close>, so a cast can make a value that is
  none of the named ones: \<open>Unnamed_request_type\<close>, which \<open>to_poco_request_type\<close> answers with
  \<open>Wrong_enum_value_exception\<close>.
\<close>

datatype request_type =
    Http_connect | Http_delete | Http_get | Http_head | Http_options
  | Http_patch | Http_post | Http_put | Http_trace
  | Unnamed_request_type int

record http_response =
  status :: "32 word"
  reason :: string
  response :: string

text \<open>Callbacks are user code: \<open>'w\<close> is the user's state. An empty \<open>std::function\<close> is \<open>None\<close>.\<close>

type_synonym 'w connection_callback = "('w, unit) ext"
type_synonym 'w message_callback = "string \<Rightarrow> ('w, unit) ext"
type_synonym 'w wamp_call_result_callback = "string \<Rightarrow> string \<Rightarrow> ('w, unit) ext"
type_synonym 'w wamp_call_error_callback = "string \<Rightarrow> string \<Rightarrow> string \<Rightarrow> ('w, unit) ext"
type_synonym 'w wamp_event_callback = "string \<Rightarrow> string \<Rightarrow> ('w, unit) ext"

end
