(* ===== verification/Https_Rest.thy ===== *)
theory Https_Rest
  imports Rito_Types
begin

text \<open>
  \<open>src/https_rest_client.cpp\<close>: one HTTPS request and its response over a POCO session. POCO is a
  parameter (\<open>poco_http\<close>): a session is an opaque handle, its state lives in the environment, and
  a request is the record of the calls the code makes on the \<open>HTTPRequest\<close> object.
\<close>

subsection \<open>What the code asks of POCO\<close>

text \<open>The constants \<open>HTTPRequest::HTTP_CONNECT\<close> to \<open>HTTPRequest::HTTP_TRACE\<close> and \<open>HTTPMessage::HTTP_1_1\<close>.\<close>

datatype poco_method =
    HTTP_CONNECT | HTTP_DELETE | HTTP_GET | HTTP_HEAD | HTTP_OPTIONS
  | HTTP_PATCH | HTTP_POST | HTTP_PUT | HTTP_TRACE

datatype poco_http_version = HTTP_1_1

datatype request_call =
    SetHost string "16 word"
  | SetKeepAlive bool
  | Authenticate string string
  | SetHeader string string

record http_request =
  req_method :: poco_method
  req_uri :: string
  req_version :: poco_http_version
  req_calls :: "request_call list"

text \<open>\<open>HTTPSClientSession\<close> (construction, \<open>sendRequest\<close>, \<open>receiveResponse\<close>, reading the response stream
  to its end) and \<open>HTTPBasicCredentials::empty\<close>.\<close>

record ('e, 's) poco_http =
  new_session :: "string \<Rightarrow> 16 word \<Rightarrow> ('e, 's) ext"
  cred_empty :: "string \<Rightarrow> string \<Rightarrow> bool"
  session_send :: "'s \<Rightarrow> http_request \<Rightarrow> ('e, unit) ext"
  session_receive :: "'s \<Rightarrow> ('e, 32 word \<times> string) ext"
  session_body :: "'s \<Rightarrow> ('e, string) ext"

subsection \<open>\<open>Https_rest_client\<close>\<close>

record 's rest_client =
  rc_host :: string
  rc_port :: "16 word"
  rc_session :: 's
  rc_username :: string
  rc_password :: string

definition https_port :: "16 word" where
  "https_port = 443"

definition new_rest_client :: "('e, 's) poco_http \<Rightarrow> string \<Rightarrow> 16 word \<Rightarrow> ('e, 's rest_client) cpp" where
  "new_rest_client net host port =
     andthen (lift_ext (new_session net host port)) (\<lambda>session.
     ret \<lparr>rc_host = host, rc_port = port, rc_session = session, rc_username = [], rc_password = []\<rparr>)"

definition set_credentials :: "string \<Rightarrow> string \<Rightarrow> 's rest_client \<Rightarrow> 's rest_client" where
  "set_credentials username password c = c\<lparr>rc_username := username, rc_password := password\<rparr>"

fun to_poco_request_type :: "request_type \<Rightarrow> exn + poco_method" where
  "to_poco_request_type Http_connect = Inr HTTP_CONNECT"
| "to_poco_request_type Http_delete = Inr HTTP_DELETE"
| "to_poco_request_type Http_get = Inr HTTP_GET"
| "to_poco_request_type Http_head = Inr HTTP_HEAD"
| "to_poco_request_type Http_options = Inr HTTP_OPTIONS"
| "to_poco_request_type Http_patch = Inr HTTP_PATCH"
| "to_poco_request_type Http_post = Inr HTTP_POST"
| "to_poco_request_type Http_put = Inr HTTP_PUT"
| "to_poco_request_type Http_trace = Inr HTTP_TRACE"
| "to_poco_request_type (Unnamed_request_type _) =
     Inl (Rito Wrong_enum_value_exception ''Unknown RequestType enum value'')"

text \<open>The headers are the map's entries in its iteration order.\<close>

definition build_request ::
  "('e, 's) poco_http \<Rightarrow> 's rest_client \<Rightarrow> poco_method \<Rightarrow> string \<Rightarrow> (string \<times> string) list \<Rightarrow> http_request" where
  "build_request net c type path_and_query headers =
     \<lparr>req_method = type, req_uri = path_and_query, req_version = HTTP_1_1,
      req_calls = [SetHost (rc_host c) (rc_port c), SetKeepAlive True]
        @ (if cred_empty net (rc_username c) (rc_password c) then []
           else [Authenticate (rc_username c) (rc_password c)])
        @ map (\<lambda>(key, v). SetHeader key v) headers\<rparr>"

definition send_request ::
  "('e, 's) poco_http \<Rightarrow> 's rest_client \<Rightarrow> poco_method \<Rightarrow> string \<Rightarrow> (string \<times> string) list \<Rightarrow> ('e, unit) cpp" where
  "send_request net c type path_and_query headers =
     lift_ext (session_send net (rc_session c) (build_request net c type path_and_query headers))"

definition receive_response :: "('e, 's) poco_http \<Rightarrow> 's rest_client \<Rightarrow> ('e, http_response) cpp" where
  "receive_response net c =
     try_catch
       (andthen (lift_ext (session_receive net (rc_session c))) (\<lambda>(st, rsn).
        andthen (lift_ext (session_body net (rc_session c))) (\<lambda>body.
        ret \<lparr>status = st, reason = rsn, response = body\<rparr>)))
       (\<lambda>x. case x of
          Poco MessageException m \<Rightarrow>
            throw (Rito Message_exception (''Unable to receive message from the server ('' @ m @ '')''))
        | _ \<Rightarrow> throw x)"

definition request ::
  "('e, 's) poco_http \<Rightarrow> 's rest_client \<Rightarrow> request_type \<Rightarrow> string \<Rightarrow> (string \<times> string) list \<Rightarrow> ('e, http_response) cpp" where
  "request net c type path_and_query headers =
     andthen (of_sum (to_poco_request_type type)) (\<lambda>method.
     andthen (send_request net c method path_and_query headers) (\<lambda>_.
     receive_response net c))"

subsection \<open>A log of the session's traffic\<close>

text \<open>A POCO that behaves as \<open>net\<close> and writes down what it is asked: it lets theorems count requests
  and name their hosts. The model itself does not use it.\<close>

datatype 's http_event = Opened string "16 word" | Sent 's http_request | Received 's

definition logging :: "'v \<Rightarrow> ('e, 'a) ext \<Rightarrow> ('e \<times> 'v list, 'a) ext" where
  "logging ev f = (\<lambda>(e, l). case f e of (r, e') \<Rightarrow> (r, (e', l @ [ev])))"

definition logged_http :: "('e, 's) poco_http \<Rightarrow> ('e \<times> 's http_event list, 's) poco_http" where
  "logged_http net =
     \<lparr>new_session = (\<lambda>h p. logging (Opened h p) (new_session net h p)),
      cred_empty = cred_empty net,
      session_send = (\<lambda>s q. logging (Sent s q) (session_send net s q)),
      session_receive = (\<lambda>s. logging (Received s) (session_receive net s)),
      session_body = (\<lambda>s (e, l). case session_body net s e of (r, e') \<Rightarrow> (r, (e', l)))\<rparr>"

fun is_sent :: "'s http_event \<Rightarrow> bool" where
  "is_sent (Sent _ _) = True"
| "is_sent _ = False"

definition sends :: "'s http_event list \<Rightarrow> nat" where
  "sends l = length (filter is_sent l)"

lemma sends_append [simp]: "sends (l @ m) = sends l + sends m"
  by (simp add: sends_def)

lemma sends_simps [simp]:
  "sends [] = 0" "sends (Opened h p # l) = sends l"
  "sends (Sent s q # l) = Suc (sends l)" "sends (Received s # l) = sends l"
  by (simp_all add: sends_def)

lemma logging_apply:
  "logging ev f (e, l) = (r, t) \<longleftrightarrow> (\<exists>e'. f e = (r, e') \<and> t = (e', l @ [ev]))"
  by (auto simp: logging_def split: prod.splits)

subsection \<open>Facts about one request\<close>

lemma never_aborts_receive_response [no_abort]: "never_aborts (receive_response net c)"
  unfolding receive_response_def
  by (intro no_abort) (auto intro!: no_abort split: prod.split exn.split poco_class.split)

lemma never_aborts_request [no_abort]: "never_aborts (request net c ty p hs)"
  unfolding request_def send_request_def by (intro no_abort)

subsection \<open>What a request is on the wire\<close>

text \<open>The reference, in POCO's terms only: one message, then one response with its text to the end, and what is
  written in the log. What fails while the message is sent is passed on as it is; of what fails while the response
  is received, a \<open>MessageException\<close> becomes a \<open>Message_exception\<close>.\<close>

fun response_error :: "exn \<Rightarrow> exn" where
  "response_error (Poco MessageException w) =
     Rito Message_exception (''Unable to receive message from the server ('' @ w @ '')'')"
| "response_error x = x"

definition http_exchange ::
  "('e, 's) poco_http \<Rightarrow> 's \<Rightarrow> http_request \<Rightarrow> ('e \<times> 's http_event list, http_response) cpp" where
  "http_exchange net s q = (\<lambda>(e, l). case session_send net s q e of
       (Inl x, e1) \<Rightarrow> (Throw x, (e1, l @ [Sent s q]))
     | (Inr _, e1) \<Rightarrow> (case session_receive net s e1 of
         (Inl x, e2) \<Rightarrow> (Throw (response_error x), (e2, l @ [Sent s q, Received s]))
       | (Inr (st, rsn), e2) \<Rightarrow> (case session_body net s e2 of
           (Inl x, e3) \<Rightarrow> (Throw (response_error x), (e3, l @ [Sent s q, Received s]))
         | (Inr body, e3) \<Rightarrow>
             (Ok \<lparr>status = st, reason = rsn, response = body\<rparr>, (e3, l @ [Sent s q, Received s])))))"

definition wire_request ::
  "('e, 's) poco_http \<Rightarrow> 's rest_client \<Rightarrow> request_type \<Rightarrow> string \<Rightarrow> (string \<times> string) list \<Rightarrow>
     ('e \<times> 's http_event list, http_response) cpp" where
  "wire_request net c ty path hs = (case to_poco_request_type ty of
       Inl x \<Rightarrow> throw x
     | Inr m \<Rightarrow> http_exchange net (rc_session c)
         \<lparr>req_method = m, req_uri = path, req_version = HTTP_1_1,
          req_calls = SetHost (rc_host c) (rc_port c) # SetKeepAlive True #
            (if cred_empty net (rc_username c) (rc_password c) then [] else [Authenticate (rc_username c) (rc_password c)]) @
            map (case_prod SetHeader) hs\<rparr>)"

lemma response_error_catch:
  "(case x of Poco MessageException m \<Rightarrow>
        throw (Rito Message_exception (''Unable to receive message from the server ('' @ m @ '')''))
      | _ \<Rightarrow> throw x) = throw (response_error x)"
  by (cases x rule: response_error.cases) simp_all

lemma receive_on_wire:
  "receive_response (logged_http net) c (e, l) =
     (case session_receive net (rc_session c) e of
        (Inl x, e2) \<Rightarrow> (Throw (response_error x), (e2, l @ [Received (rc_session c)]))
      | (Inr (st, rsn), e2) \<Rightarrow> (case session_body net (rc_session c) e2 of
          (Inl x, e3) \<Rightarrow> (Throw (response_error x), (e3, l @ [Received (rc_session c)]))
        | (Inr body, e3) \<Rightarrow>
            (Ok \<lparr>status = st, reason = rsn, response = body\<rparr>, (e3, l @ [Received (rc_session c)]))))"
  by (simp add: receive_response_def response_error_catch andthen_def try_catch_def lift_ext_def logged_http_def
      logging_def split: prod.split sum.split)

lemma request_on_wire: "request (logged_http net) c ty path hs = wire_request net c ty path hs"
proof
  fix el :: "'a \<times> 'b http_event list"
  obtain e l where el: "el = (e, l)" by (metis prod.collapse)
  show "request (logged_http net) c ty path hs el = wire_request net c ty path hs el"
  proof (cases "to_poco_request_type ty")
    case (Inr m)
    let ?q = "build_request net c m path hs"
    have q: "build_request (logged_http net) c m path hs = ?q" by (simp add: build_request_def logged_http_def)
    have "wire_request net c ty path hs = http_exchange net (rc_session c) ?q"
      by (simp add: wire_request_def build_request_def Inr)
    moreover have "send_request (logged_http net) c m path hs (e, l) =
        (case session_send net (rc_session c) ?q e of
           (Inl x, e1) \<Rightarrow> (Throw x, (e1, l @ [Sent (rc_session c) ?q]))
         | (Inr u, e1) \<Rightarrow> (Ok u, (e1, l @ [Sent (rc_session c) ?q])))"
      unfolding send_request_def q by (simp add: lift_ext_def logged_http_def logging_def split: prod.split sum.split)
    ultimately show ?thesis
      by (simp add: el Inr http_exchange_def request_def andthen_def receive_on_wire split: prod.split sum.split)
  qed (simp add: wire_request_def request_def andthen_def)
qed

text \<open>The exceptions of the response are never POCO's \<open>MessageException\<close>.\<close>

lemma response_error_other [simp]: "response_error x \<noteq> Poco MessageException w"
  by (cases x rule: response_error.cases) simp_all

text \<open>A request, step by step as the session sees it.\<close>

lemma request_sequence:
  assumes "request (logged_http net) c ty path hs (e, l) = (r, (e', l'))"
  shows "case to_poco_request_type ty of
      Inl x \<Rightarrow> r = Throw x \<and> e' = e \<and> l' = l
    | Inr m \<Rightarrow> (\<exists>x. session_send net (rc_session c) (build_request net c m path hs) e = (Inl x, e') \<and>
            r = Throw x \<and> l' = l @ [Sent (rc_session c) (build_request net c m path hs)]) \<or>
        (l' = l @ [Sent (rc_session c) (build_request net c m path hs), Received (rc_session c)] \<and>
            \<not> is_abort r \<and> (\<forall>w. r \<noteq> Throw (Poco MessageException w)))"
proof (cases "to_poco_request_type ty")
  case (Inl x)
  with assms show ?thesis by (simp add: request_def andthen_def)
next
  case (Inr m)
  let ?q = "build_request net c m path hs"
  have q: "build_request (logged_http net) c m path hs = ?q" by (simp add: build_request_def logged_http_def)
  obtain a e1 where s: "session_send net (rc_session c) ?q e = (a, e1)" by (metis prod.collapse)
  show ?thesis
  proof (cases a)
    case (Inl x)
    with assms Inr s q show ?thesis
      by (auto simp: request_def send_request_def andthen_def lift_ext_def logged_http_def logging_def)
  next
    case Inr2: (Inr u)
    have "receive_response (logged_http net) c (e1, l @ [Sent (rc_session c) ?q]) = (r, (e', l'))"
      using assms Inr s q Inr2
      by (auto simp: request_def send_request_def andthen_def lift_ext_def logged_http_def logging_def)
    moreover from this have "\<not> is_abort r"
      using never_aborts_receive_response by (metis fst_conv never_aborts_def)
    ultimately show ?thesis using Inr
      by (auto simp: receive_response_def andthen_def try_catch_def lift_ext_def logged_http_def logging_def
          split: prod.splits sum.splits exn.splits poco_class.splits)
  qed
qed

text \<open>So all that a request adds to the log is the one message and the receiving of an answer, on the client's session.\<close>

lemma request_events:
  assumes "request (logged_http net) c ty path hs (e, l) = (r, (e', l'))"
  shows "\<exists>evs. l' = l @ evs \<and> list_all (\<lambda>ev. ev = Received (rc_session c) \<or>
     (\<exists>m. ev = Sent (rc_session c) (build_request net c m path hs))) evs"
  using request_sequence [OF assms] by (auto split: sum.splits)

subsection \<open>A concrete POCO for the witnesses\<close>

text \<open>Sessions are numbered in the order of their creation and every session answers \<open>200 OK\<close>;
  \<open>failing_http\<close> is the same with a connection that is refused.\<close>

definition answering_http :: "(nat, nat) poco_http" where
  "answering_http =
     \<lparr>new_session = (\<lambda>h p n. (Inr n, Suc n)),
      cred_empty = (\<lambda>u p. u = [] \<and> p = []),
      session_send = (\<lambda>s q n. (Inr (), n)),
      session_receive = (\<lambda>s n. (Inr (200, ''OK''), n)),
      session_body = (\<lambda>s n. (Inr ''{}'', n))\<rparr>"

definition failing_http :: "(nat, nat) poco_http" where
  "failing_http = answering_http\<lparr>session_send :=
     (\<lambda>s q n. (Inl (Poco Other_poco_exception ''Connection refused''), n))\<rparr>"

lemmas eval_http = answering_http_def failing_http_def logged_http_def logging_def lift_ext_def
  andthen_def try_catch_def request_def send_request_def receive_response_def build_request_def
  new_rest_client_def

subsection \<open>Properties\<close>

text \<open>C32. A request is what the reference says, in every case and in all its effects. A request type outside
  the enumeration is refused with \<open>Wrong_enum_value_exception\<close> before anything is sent. Otherwise one HTTP request
  is sent, with the method named by the type, the host and port of the client, keep-alive, the credentials if there
  are any and then the headers; what POCO throws while it is sent is passed on. Then one response is received with
  its text, and only then returned; what POCO throws meanwhile is passed on, but for a
  \<open>Poco::Net::MessageException\<close>, which becomes a \<open>Message_exception\<close> with its text. So a \<open>MessageException\<close>
  leaves exactly if sending threw it: \<open>sendRequest\<close> is outside the \<open>try\<close> block.\<close>

theorem rest_request_sequence:
  "request (logged_http net) c ty path hs (e, l) = wire_request net c ty path hs (e, l) \<and>
   ((\<exists>w. fst (request (logged_http net) c ty path hs (e, l)) = Throw (Poco MessageException w)) \<longleftrightarrow>
      (\<exists>m w. to_poco_request_type ty = Inr m \<and>
         fst (session_send net (rc_session c) (build_request net c m path hs) e) = Inl (Poco MessageException w)))"
proof -
  have "(\<exists>w. fst (wire_request net c ty path hs (e, l)) = Throw (Poco MessageException w)) \<longleftrightarrow>
      (\<exists>m w. to_poco_request_type ty = Inr m \<and>
         fst (session_send net (rc_session c) (build_request net c m path hs) e) = Inl (Poco MessageException w))"
  proof (cases "to_poco_request_type ty")
    case (Inl x)
    then show ?thesis by (cases ty) (auto simp: wire_request_def)
  next
    case (Inr m)
    have "wire_request net c ty path hs = http_exchange net (rc_session c) (build_request net c m path hs)"
      by (simp add: wire_request_def build_request_def Inr)
    with Inr show ?thesis by (simp add: http_exchange_def split: prod.split sum.split)
  qed
  then show ?thesis by (simp add: request_on_wire)
qed

text \<open>In the witness a \<open>MessageException\<close> while sending leaves, one while receiving does not.\<close>

theorem rest_request_sequence_witness:
  "let c = \<lparr>rc_host = ''h'', rc_port = 443, rc_session = 0, rc_username = [], rc_password = []\<rparr>
   in (\<exists>w. fst (request (logged_http (answering_http\<lparr>session_send :=
           \<lambda>s q n. (Inl (Poco MessageException ''cut''), n)\<rparr>)) c Http_get ''/x'' [] (1, [])) =
         Throw (Poco MessageException w)) \<and>
      (\<nexists>w. fst (request (logged_http (answering_http\<lparr>session_receive :=
           \<lambda>s n. (Inl (Poco MessageException ''cut''), n)\<rparr>)) c Http_get ''/x'' [] (1, [])) =
         Throw (Poco MessageException w))"
  unfolding Let_def by (simp only: rest_request_sequence [THEN conjunct2]) (simp add: answering_http_def)

end
