(* ===== verification/Rest_Retry.thy ===== *)
theory Rest_Retry
  imports Https_Rest
begin

text \<open>
  What \<open>Riot_rest_handler\<close> and \<open>Lcu_rest_handler\<close> have in common: both keep an optional
  \<open>Https_rest_client\<close>, try it first, drop it when the attempt fails, connect again and try a
  second time. The locale \<open>reconnecting_handler\<close> states that contract over a handler state \<open>'h\<close>
  and an environment \<open>'e\<close>; \<open>counted_handler\<close> adds a count of the requests sent. \<open>Riot_Rest\<close> and
  \<open>Lcu_Rest\<close> interpret them on the two handlers.
\<close>

subsection \<open>The contract\<close>

locale reconnecting_handler =
  fixes has_client :: "'h \<Rightarrow> bool"
    and drop_client :: "'h \<Rightarrow> 'h"
    and caught :: "exn \<Rightarrow> bool"
    and reconnect :: "('h \<times> 'e, unit) cpp"
    and send :: "('h \<times> 'e, http_response) cpp"
    and req :: "('h \<times> 'e, http_response) cpp"
  assumes fresh: "\<not> has_client h \<Longrightarrow> req (h, e) = andthen reconnect (\<lambda>_. send) (h, e)"
    and cached_ok: "has_client h \<Longrightarrow> send (h, e) = (Ok r, s) \<Longrightarrow> req (h, e) = (Ok r, s)"
    and cached_caught: "has_client h \<Longrightarrow> send (h, e) = (Throw x, (h', e')) \<Longrightarrow> caught x \<Longrightarrow>
          req (h, e) = andthen reconnect (\<lambda>_. send) (drop_client h', e')"
    and cached_uncaught: "has_client h \<Longrightarrow> send (h, e) = (Throw x, s) \<Longrightarrow> \<not> caught x \<Longrightarrow>
          req (h, e) = (Throw x, s)"
    and send_total: "has_client h \<Longrightarrow> \<exists>r e'. send (h, e) = (r, (h, e')) \<and> \<not> is_abort r"
    and reconnect_total: "\<not> has_client h \<Longrightarrow>
          \<exists>r h' e'. reconnect (h, e) = (r, (h', e')) \<and> \<not> is_abort r \<and> (has_client h' \<longleftrightarrow> is_ok r)"
    and dropped: "\<not> has_client (drop_client h)"
begin

text \<open>The five laws about the call in one equation.\<close>

lemma branches:
  "req (h, e) =
     (let retry = andthen reconnect (\<lambda>_. send) in
      if \<not> has_client h then retry (h, e)
      else case send (h, e) of
          (Throw x, (h', e')) \<Rightarrow>
            if caught x then retry (drop_client h', e') else (Throw x, (h', e'))
        | outcome \<Rightarrow> outcome)"
proof (cases "has_client h")
  case True
  then obtain r e' where s: "send (h, e) = (r, (h, e'))" and na: "\<not> is_abort r"
    using send_total by blast
  show ?thesis
  proof (cases r)
    case (Ok a)
    with True s show ?thesis using cached_ok [of h e a] by simp
  next
    case (Throw x)
    with s have s': "send (h, e) = (Throw x, (h, e'))" by simp
    show ?thesis
    proof (cases "caught x")
      case True
      with cached_caught [OF \<open>has_client h\<close> s'] s' \<open>has_client h\<close> show ?thesis by simp
    next
      case False
      with cached_uncaught [OF \<open>has_client h\<close> s'] s' \<open>has_client h\<close> show ?thesis by simp
    qed
  qed (use na in simp)
qed (simp add: fresh)

text \<open>A first attempt without a client: what it leaves behind.\<close>

lemma attempt:
  assumes "\<not> has_client h"
  shows "\<exists>r h' e'. andthen reconnect (\<lambda>_. send) (h, e) = (r, (h', e')) \<and> \<not> is_abort r \<and>
           (is_ok r \<longrightarrow> has_client h')"
proof -
  obtain r h' e' where rc: "reconnect (h, e) = (r, (h', e'))" "\<not> is_abort r" "has_client h' \<longleftrightarrow> is_ok r"
    using reconnect_total [OF assms] by blast
  show ?thesis
  proof (cases r)
    case (Ok u)
    with rc obtain q e'' where "send (h', e') = (q, (h', e''))" "\<not> is_abort q"
      using send_total by fastforce
    with rc Ok show ?thesis by (auto simp: andthen_ok)
  qed (use rc in \<open>auto simp: andthen_simps\<close>)
qed

text \<open>The request always ends with a value or an exception: it dereferences no null client.\<close>

lemma total: "\<exists>r h' e'. req (h, e) = (r, (h', e')) \<and> \<not> is_abort r \<and> (is_ok r \<longrightarrow> has_client h')"
proof (cases "has_client h")
  case True
  then obtain r e' where s: "send (h, e) = (r, (h, e'))" and na: "\<not> is_abort r"
    using send_total by blast
  show ?thesis
  proof (cases r)
    case (Ok a)
    with s have "send (h, e) = (Ok a, (h, e'))" by simp
    with True have "req (h, e) = (Ok a, (h, e'))" by (rule cached_ok)
    with True show ?thesis by simp
  next
    case (Throw x)
    show ?thesis
    proof (cases "caught x")
      case True
      with \<open>has_client h\<close> s Throw show ?thesis
        using attempt [OF dropped, of h e'] by (auto dest: cached_caught)
    next
      case False
      with \<open>has_client h\<close> s Throw show ?thesis by (auto dest: cached_uncaught)
    qed
  qed (use na in simp)
next
  case False
  then show ?thesis using attempt [OF False, of e] by (simp add: fresh)
qed

text \<open>What sending, connecting and dropping the client keep, the request keeps.\<close>

lemma request_keeps:
  assumes "P (h, e)"
    and "\<And>h e. P (h, e) \<Longrightarrow> has_client h \<Longrightarrow> P (snd (send (h, e)))"
    and "\<And>h e. P (h, e) \<Longrightarrow> P (snd (reconnect (h, e)))"
    and "\<And>h e. P (h, e) \<Longrightarrow> P (drop_client h, e)"
  shows "P (snd (req (h, e)))"
proof -
  have attempt: "P (snd (andthen reconnect (\<lambda>_. send) (h, e)))" if P: "P (h, e)" and none: "\<not> has_client h" for h e
  proof -
    obtain r h' e' where rc: "reconnect (h, e) = (r, (h', e'))" "has_client h' \<longleftrightarrow> is_ok r"
      using reconnect_total [OF none] by blast
    with assms(3) [OF P] have "P (h', e')" by simp
    with rc assms(2) show ?thesis by (cases r) (simp_all add: andthen_def)
  qed
  show ?thesis
  proof (cases "has_client h")
    case True
    obtain r e' where s: "send (h, e) = (r, (h, e'))" "\<not> is_abort r" using send_total [OF True] by blast
    with assms(2) [OF assms(1) True] have "P (h, e')" by simp
    with s True attempt [OF assms(4) dropped] show ?thesis
      by (cases r) (simp_all add: branches Let_def)
  qed (simp add: fresh attempt assms(1))
qed

lemma ok_has_client: "req (h, e) = (Ok r, (h', e')) \<Longrightarrow> has_client h'"
  using total [of h e] by auto

lemma not_abort: "fst (req (h, e)) \<noteq> Abort b"
  using total [of h e] by auto

end

locale counted_handler = reconnecting_handler +
  fixes sent :: "'e \<Rightarrow> nat"
  assumes send_count: "send (h, e) = (r, (h', e')) \<Longrightarrow> sent e' \<le> Suc (sent e)"
    and reconnect_count: "reconnect (h, e) = (q, (h', e')) \<Longrightarrow> sent e' = sent e"
begin

lemma attempt_count:
  assumes "andthen reconnect (\<lambda>_. send) (h, e) = (r, (h', e'))"
  shows "sent e' \<le> Suc (sent e)"
proof -
  obtain q g d where rc: "reconnect (h, e) = (q, (g, d))" by (metis prod.collapse)
  then have "sent d = sent e" by (rule reconnect_count)
  with rc assms show ?thesis
    by (cases q) (auto simp: andthen_simps dest: send_count)
qed

text \<open>A call sends the request at most twice, and once when there was no client.\<close>

lemma at_most_two:
  assumes "req (h, e) = (r, (h', e'))"
  shows "sent e' \<le> sent e + (if has_client h then 2 else 1)"
proof (cases "has_client h")
  case True
  then obtain q d where s: "send (h, e) = (q, (h, d))" and na: "\<not> is_abort q"
    using send_total by blast
  from s have d: "sent d \<le> Suc (sent e)" by (rule send_count)
  show ?thesis
  proof (cases q)
    case (Ok a)
    with True s assms d show ?thesis by (auto dest: cached_ok)
  next
    case (Throw x)
    show ?thesis
    proof (cases "caught x")
      case True
      with \<open>has_client h\<close> s Throw assms
      have "andthen reconnect (\<lambda>_. send) (drop_client h, d) = (r, (h', e'))"
        by (simp add: cached_caught)
      then have "sent e' \<le> Suc (sent d)" by (rule attempt_count)
      with d \<open>has_client h\<close> show ?thesis by simp
    next
      case False
      with \<open>has_client h\<close> s Throw assms d show ?thesis by (simp add: cached_uncaught)
    qed
  qed (use na in simp)
next
  case False
  with assms show ?thesis by (auto simp: fresh dest: attempt_count)
qed

end

subsection \<open>Attempts in turn\<close>

text \<open>The reference for a request that may be tried again: attempts are made in turn until one ends otherwise than
  with an exception that is caught; its outcome, or the last one's, is the outcome of the whole.\<close>

fun first_answer :: "(exn \<Rightarrow> bool) \<Rightarrow> ('s, 'a) cpp list \<Rightarrow> ('s, 'a) cpp" where
  "first_answer caught [a] = a"
| "first_answer caught (a # as) = (\<lambda>s. case a s of
       (Throw x, t) \<Rightarrow> if caught x then first_answer caught as t else (Throw x, t)
     | outcome \<Rightarrow> outcome)"
| "first_answer caught [] = throw (Rito Unknown_exception ''Unexpected error'')"

text \<open>The attempt over a connection made for it, in POCO's terms: \<open>connect\<close> is the address and the credentials, or
  why there are none; the new client is kept, an old one is gone.\<close>

definition attempt_afresh ::
  "('e, 's) poco_http \<Rightarrow> ('s rest_client option \<Rightarrow> 'h \<Rightarrow> 'h) \<Rightarrow>
     ('h \<Rightarrow> ('e, string \<times> 16 word \<times> string \<times> string) ext) \<Rightarrow> ('h \<Rightarrow> (string \<times> string) list) \<Rightarrow>
     request_type \<Rightarrow> string \<Rightarrow> ('h \<times> 'e \<times> 's http_event list, http_response) cpp" where
  "attempt_afresh net keep connect headers ty msg = (\<lambda>(h, (e, l)). case connect h e of
       (Inl x, e1) \<Rightarrow> (Throw x, (keep None h, (e1, l)))
     | (Inr (host, port, user, password), e1) \<Rightarrow> (case new_session net host port e1 of
         (Inl x, e2) \<Rightarrow> (Throw x, (keep None h, (e2, l @ [Opened host port])))
       | (Inr s, e2) \<Rightarrow>
           (let c = \<lparr>rc_host = host, rc_port = port, rc_session = s, rc_username = user, rc_password = password\<rparr>
            in on_env (wire_request net c ty msg (headers h)) (keep (Some c) h, (e2, l @ [Opened host port])))))"

subsection \<open>Counting in the log\<close>

definition log_sent :: "'e \<times> 's http_event list \<Rightarrow> nat" where
  "log_sent el = sends (snd el)"

text \<open>Over a logged POCO one client request adds at most one \<open>Sent\<close>.\<close>

definition same_sent :: "'e \<times> 's http_event list \<Rightarrow> 'e \<times> 's http_event list \<Rightarrow> bool" where
  "same_sent a b \<longleftrightarrow> log_sent a = log_sent b"

lemma same_sent_order: "reflp same_sent" "transp same_sent"
  by (auto simp: same_sent_def intro: reflpI transpI)

lemma session_receive_same_sent: "keeps same_sent (lift_ext (session_receive (logged_http net) t))"
  by (rule keepsI) (auto simp: same_sent_def lift_ext_def logged_http_def logging_def log_sent_def
      split: prod.splits sum.splits)

lemma session_body_same_sent: "keeps same_sent (lift_ext (session_body (logged_http net) t))"
  by (rule keepsI) (auto simp: same_sent_def lift_ext_def logged_http_def log_sent_def
      split: prod.splits sum.splits)

lemma receive_response_same_sent: "keeps same_sent (receive_response (logged_http net) c)"
  unfolding receive_response_def
  by (intro keeps_try_catch keeps_andthen same_sent_order session_receive_same_sent)
     (auto intro!: keeps_andthen keeps_ret keeps_throw same_sent_order session_body_same_sent
        split: prod.split exn.split poco_class.split)

lemma receive_response_log:
  "receive_response (logged_http net) c el = (r, el') \<Longrightarrow> log_sent el' = log_sent el"
  by (drule keeps_resD [OF receive_response_same_sent]) (simp add: same_sent_def)

lemma request_log:
  "request (logged_http net) c ty p hs el = (r, el') \<Longrightarrow> log_sent el' \<le> Suc (log_sent el)"
proof (cases "to_poco_request_type ty")
  case (Inr m)
  assume rq: "request (logged_http net) c ty p hs el = (r, el')"
  obtain q el2 where s: "send_request (logged_http net) c m p hs el = (q, el2)"
    by (cases "send_request (logged_http net) c m p hs el")
  then have "log_sent el2 = Suc (log_sent el)"
    by (cases el) (auto simp: send_request_def lift_ext_def logged_http_def logging_def log_sent_def
        split: prod.splits sum.splits)
  with rq s Inr show ?thesis
    by (cases q) (auto simp: request_def andthen_simps dest: receive_response_log)
qed (simp add: request_def andthen_def)

lemma new_rest_client_log:
  "new_rest_client (logged_http net) host port el = (r, el') \<Longrightarrow> log_sent el' = log_sent el"
  by (cases el) (auto simp: new_rest_client_def andthen_def lift_ext_def logged_http_def logging_def
      log_sent_def split: prod.splits sum.splits res.splits)

end
