(* ===== verification/Riot_Rest.thy ===== *)
theory Riot_Rest
  imports Rest_Retry
begin

text \<open>
  \<open>src/riot_rest_handler.cpp\<close> and \<open>include/rito/riot_rest_handler.h\<close>: requests to the public Riot
  API, with the API key as a header and a host chosen by region.
\<close>

text \<open>An object of type \<open>Region\<close> can hold any \<open>int\<close>; \<open>Unnamed_region\<close> are the values without a name.\<close>

datatype region =
    Region_none | Br | Eune | Euw | Jp | Kr | Lan | Las | Na | Oce | Tr | Ru
  | Unnamed_region int

record 's riot_handler =
  m_region :: region
  m_api_key :: string
  m_client :: "'s rest_client option"

definition riot_rest_handler :: "string \<Rightarrow> 's riot_handler" where
  "riot_rest_handler api_key = \<lparr>m_region = Region_none, m_api_key = api_key, m_client = None\<rparr>"

definition set_region :: "region \<Rightarrow> 's riot_handler \<Rightarrow> 's riot_handler" where
  "set_region rg h = h\<lparr>m_region := rg\<rparr>"

fun get_host_by_region :: "region \<Rightarrow> string" where
  "get_host_by_region Region_none = []"
| "get_host_by_region Br = ''br1.api.riotgames.com''"
| "get_host_by_region Eune = ''eun1.api.riotgames.com''"
| "get_host_by_region Euw = ''euw1.api.riotgames.com''"
| "get_host_by_region Jp = ''jp1.api.riotgames.com''"
| "get_host_by_region Kr = ''kr.api.riotgames.com''"
| "get_host_by_region Lan = ''la1.api.riotgames.com''"
| "get_host_by_region Las = ''la2.api.riotgames.com''"
| "get_host_by_region Na = ''na1.api.riotgames.com''"
| "get_host_by_region Oce = ''oc1.api.riotgames.com''"
| "get_host_by_region Tr = ''tr1.api.riotgames.com''"
| "get_host_by_region Ru = ''ru.api.riotgames.com''"
| "get_host_by_region (Unnamed_region _) = []"

text \<open>The regions with a name and a host of their own.\<close>

definition named_regions :: "region list" where
  "named_regions = [Br, Eune, Euw, Jp, Kr, Lan, Las, Na, Oce, Tr, Ru]"

lemma named_region: "rg \<in> set named_regions \<longleftrightarrow> rg \<noteq> Region_none \<and> (\<forall>n. rg \<noteq> Unnamed_region n)"
  by (cases rg) (simp_all add: named_regions_def)

lemma hosts_distinct:
  assumes "a \<in> set named_regions"
  shows "get_host_by_region a = get_host_by_region b \<longleftrightarrow> a = b"
proof (cases "b \<in> set named_regions")
  case True
  have "distinct (map get_host_by_region named_regions)" by code_simp
  with assms True show ?thesis by (auto simp: distinct_map inj_on_def)
next
  case False
  then have "get_host_by_region b = []" by (cases b) (simp_all add: named_regions_def)
  moreover have "get_host_by_region a \<noteq> []" using assms by (auto simp: named_regions_def)
  ultimately show ?thesis using assms False by auto
qed

text \<open>\<open>m_client->request(...)\<close>: a null \<open>m_client\<close> would be undefined behaviour.\<close>

definition riot_send_request ::
  "('e, 's) poco_http \<Rightarrow> request_type \<Rightarrow> string \<Rightarrow> ('s riot_handler \<times> 'e, http_response) cpp" where
  "riot_send_request net type message = (\<lambda>(h, e).
     case m_client h of
       None \<Rightarrow> (Abort Null_dereference, (h, e))
     | Some c \<Rightarrow> on_env (request net c type message [(''X-Riot-Token'', m_api_key h)]) (h, e))"

definition riot_attempt_reconnect :: "('e, 's) poco_http \<Rightarrow> ('s riot_handler \<times> 'e, unit) cpp" where
  "riot_attempt_reconnect net = (\<lambda>(h, e).
     if m_region h = Region_none
     then (Throw (Rito No_region_selected_exception ''You have to select region first''), (h, e))
     else andthen (on_env (new_rest_client net (get_host_by_region (m_region h)) https_port))
            (\<lambda>c. modify (\<lambda>(h, e). (h\<lparr>m_client := Some c\<rparr>, e))) (h, e))"

text \<open>The first block yields \<open>Some\<close> for \<open>return\<close>, \<open>None\<close> when control goes on.\<close>

definition riot_request ::
  "('e, 's) poco_http \<Rightarrow> request_type \<Rightarrow> string \<Rightarrow> ('s riot_handler \<times> 'e, http_response) cpp" where
  "riot_request net type message =
     andthen
       (\<lambda>(h, e). if m_client h \<noteq> None
          then try_catch
                 (andthen (riot_send_request net type message) (\<lambda>r. ret (Some r)))
                 (\<lambda>x. if is_std_exception x
                      then andthen (modify (\<lambda>(h, e). (h\<lparr>m_client := None\<rparr>, e))) (\<lambda>_. ret None)
                      else throw x) (h, e)
          else ret None (h, e))
       (\<lambda>returned. case returned of
          Some r \<Rightarrow> ret r
        | None \<Rightarrow> (\<lambda>(h, e). if m_client h = None
            then andthen (riot_attempt_reconnect net) (\<lambda>_. riot_send_request net type message) (h, e)
            else throw (Rito Unknown_exception ''Unexpected error'') (h, e)))"

subsection \<open>The handler keeps the contract\<close>

lemma riot_send_total:
  assumes "m_client h \<noteq> None"
  shows "\<exists>r e'. riot_send_request net ty msg (h, e) = (r, (h, e')) \<and> \<not> is_abort r"
proof -
  from assms obtain c where c: "m_client h = Some c" by blast
  obtain r e' where r: "request net c ty msg [(''X-Riot-Token'', m_api_key h)] e = (r, e')"
    by (cases "request net c ty msg [(''X-Riot-Token'', m_api_key h)] e")
  then have "\<not> is_abort r" by (cases r) (auto dest: never_abortsD [OF never_aborts_request])
  with c r show ?thesis by (simp add: riot_send_request_def on_env_apply)
qed

lemma riot_reconnect_total:
  "\<exists>r h' e'. riot_attempt_reconnect net (h, e) = (r, (h', e')) \<and> \<not> is_abort r \<and>
     (is_ok r \<longrightarrow> m_client h' \<noteq> None) \<and> (\<not> is_ok r \<longrightarrow> h' = h)"
  using lift_ext_cases [of "new_session net (get_host_by_region (m_region h)) https_port" e]
  by (auto simp: riot_attempt_reconnect_def new_rest_client_def andthen_def on_env_def)

interpretation riot: reconnecting_handler "\<lambda>h. m_client h \<noteq> None" "\<lambda>h. h\<lparr>m_client := None\<rparr>"
  is_std_exception "riot_attempt_reconnect net" "riot_send_request net ty msg" "riot_request net ty msg"
  for net ty msg
proof
  fix h e
  show "riot_request net ty msg (h, e) =
      andthen (riot_attempt_reconnect net) (\<lambda>_. riot_send_request net ty msg) (h, e)"
    if "\<not> m_client h \<noteq> None"
    using that by (simp add: riot_request_def andthen_def [of "\<lambda>(h, e). _ h e"])
  show "riot_request net ty msg (h, e) = (Ok r, s)"
    if "m_client h \<noteq> None" "riot_send_request net ty msg (h, e) = (Ok r, s)" for r s
    using that by (simp add: riot_request_def andthen_def try_catch_def)
  show "riot_request net ty msg (h, e) =
      andthen (riot_attempt_reconnect net) (\<lambda>_. riot_send_request net ty msg) (h'\<lparr>m_client := None\<rparr>, e')"
    if "m_client h \<noteq> None" "riot_send_request net ty msg (h, e) = (Throw x, (h', e'))" "is_std_exception x"
    for x h' e'
    using that by (simp add: riot_request_def andthen_def try_catch_def)
  show "riot_request net ty msg (h, e) = (Throw x, s)"
    if "m_client h \<noteq> None" "riot_send_request net ty msg (h, e) = (Throw x, s)" "\<not> is_std_exception x"
    for x s
    using that by (simp add: riot_request_def andthen_def try_catch_def)
  show "\<exists>r e'. riot_send_request net ty msg (h, e) = (r, (h, e')) \<and> \<not> is_abort r"
    if "m_client h \<noteq> None"
    using that by (rule riot_send_total)
  show "\<exists>r h' e'. riot_attempt_reconnect net (h, e) = (r, (h', e')) \<and> \<not> is_abort r \<and>
      (m_client h' \<noteq> None) = is_ok r" if "\<not> m_client h \<noteq> None"
    using riot_reconnect_total [of net h e] that by fastforce
qed simp

lemma riot_send_log:
  "riot_send_request (logged_http net) ty msg (h, el) = (r, (h', el')) \<Longrightarrow> log_sent el' \<le> Suc (log_sent el)"
  by (auto simp: riot_send_request_def on_env_apply dest: request_log split: option.splits)

lemma riot_reconnect_log:
  assumes "riot_attempt_reconnect (logged_http net) (h, el) = (r, (h', el'))"
  shows "log_sent el' = log_sent el"
proof -
  obtain q d where n: "new_rest_client (logged_http net) (get_host_by_region (m_region h)) https_port el = (q, d)"
    by (cases "new_rest_client (logged_http net) (get_host_by_region (m_region h)) https_port el")
  then have "log_sent d = log_sent el" by (rule new_rest_client_log)
  with assms n show ?thesis
    by (cases q) (auto simp: riot_attempt_reconnect_def andthen_def on_env_def split: if_splits)
qed

interpretation riot_log: counted_handler "\<lambda>h. m_client h \<noteq> None" "\<lambda>h. h\<lparr>m_client := None\<rparr>"
  is_std_exception "riot_attempt_reconnect (logged_http net)" "riot_send_request (logged_http net) ty msg"
  "riot_request (logged_http net) ty msg" log_sent
  for net ty msg
  by unfold_locales (auto dest: riot_send_log riot_reconnect_log)

text \<open>No operation of the request changes the region or the key.\<close>

definition same_settings :: "'s riot_handler \<times> 'e \<Rightarrow> 's riot_handler \<times> 'e \<Rightarrow> bool" where
  "same_settings a b \<longleftrightarrow> m_region (fst b) = m_region (fst a) \<and> m_api_key (fst b) = m_api_key (fst a)"

lemma same_settings_order: "reflp same_settings" "transp same_settings"
  by (auto simp: same_settings_def intro: reflpI transpI)

lemma riot_send_settings: "keeps same_settings (riot_send_request net ty msg)"
  by (rule keepsI) (auto simp: riot_send_request_def same_settings_def on_env_def split: option.split prod.split)

lemma riot_reconnect_settings: "keeps same_settings (riot_attempt_reconnect net)"
  by (rule keepsI) (auto simp: riot_attempt_reconnect_def same_settings_def andthen_def on_env_def
      split: prod.split res.split)

lemma riot_drop_settings: "keeps same_settings (modify (\<lambda>(h, e). (h\<lparr>m_client := None\<rparr>, e)))"
  by (rule keepsI) (auto simp: same_settings_def split: prod.split)

lemma riot_request_settings: "keeps same_settings (riot_request net ty msg)"
proof -
  let ?first = "try_catch (andthen (riot_send_request net ty msg) (\<lambda>r. ret (Some r)))
        (\<lambda>x. if is_std_exception x
             then andthen (modify (\<lambda>(h, e). (h\<lparr>m_client := None\<rparr>, e))) (\<lambda>_. ret None) else throw x)"
  let ?second = "andthen (riot_attempt_reconnect net) (\<lambda>_. riot_send_request net ty msg)"
  have first: "keeps same_settings ?first"
    by (auto intro!: keeps_try_catch keeps_andthen keeps_ret keeps_throw same_settings_order
        riot_send_settings riot_drop_settings)
  have second: "keeps same_settings ?second"
    by (intro keeps_andthen same_settings_order riot_send_settings riot_reconnect_settings)
  show ?thesis
    unfolding riot_request_def
    by (intro keeps_andthen same_settings_order)
       (auto intro!: keepsI keepsD [OF first] keepsD [OF second] reflpD [OF same_settings_order(1)]
          split: option.split prod.split)
qed

subsection \<open>Properties\<close>

lemma riot_branches:
  "riot_request net ty msg (h, e) =
     (let retry = andthen (riot_attempt_reconnect net) (\<lambda>_. riot_send_request net ty msg) in
      if m_client h = None then retry (h, e)
      else case riot_send_request net ty msg (h, e) of
          (Throw x, (h', e')) \<Rightarrow>
            if is_std_exception x then retry (h'\<lparr>m_client := None\<rparr>, e') else (Throw x, (h', e'))
        | outcome \<Rightarrow> outcome)"
  using riot.branches [of net ty msg h e] by simp

subsection \<open>A request on the wire\<close>

text \<open>What each attempt of a request is, in POCO's terms.\<close>

definition riot_headers :: "'s riot_handler \<Rightarrow> (string \<times> string) list" where
  "riot_headers h = [(''X-Riot-Token'', m_api_key h)]"

definition riot_over ::
  "('e, 's) poco_http \<Rightarrow> 's rest_client \<Rightarrow> request_type \<Rightarrow> string \<Rightarrow>
     ('s riot_handler \<times> 'e \<times> 's http_event list, http_response) cpp" where
  "riot_over net c ty msg = (\<lambda>(h, el). on_env (wire_request net c ty msg (riot_headers h)) (h, el))"

definition riot_address :: "'s riot_handler \<Rightarrow> ('e, string \<times> 16 word \<times> string \<times> string) ext" where
  "riot_address h = (\<lambda>e. (if m_region h = Region_none
     then Inl (Rito No_region_selected_exception ''You have to select region first'')
     else Inr (get_host_by_region (m_region h), 443, [], []), e))"

definition riot_afresh ::
  "('e, 's) poco_http \<Rightarrow> request_type \<Rightarrow> string \<Rightarrow> ('s riot_handler \<times> 'e \<times> 's http_event list, http_response) cpp" where
  "riot_afresh net = attempt_afresh net (\<lambda>c h. h\<lparr>m_client := c\<rparr>) riot_address riot_headers"

lemma riot_send_over:
  "m_client h = Some c \<Longrightarrow> riot_send_request (logged_http net) ty msg (h, el) = riot_over net c ty msg (h, el)"
  by (simp add: riot_send_request_def riot_over_def riot_headers_def request_on_wire)

lemma riot_retry_afresh:
  "andthen (riot_attempt_reconnect (logged_http net)) (\<lambda>_. riot_send_request (logged_http net) ty msg)
     (h\<lparr>m_client := None\<rparr>, (e, l)) = riot_afresh net ty msg (h, (e, l))"
proof (cases "m_region h = Region_none")
  case False
  obtain q d where n: "new_session net (get_host_by_region (m_region h)) 443 e = (q, d)" by (metis prod.collapse)
  with False show ?thesis
    by (cases q) (simp_all add: riot_afresh_def attempt_afresh_def riot_address_def riot_attempt_reconnect_def
        andthen_def on_env_def new_rest_client_def lift_ext_def logged_http_def logging_def https_port_def
        riot_send_over [unfolded logged_http_def logging_def] riot_over_def riot_headers_def Let_def)
qed (simp add: riot_afresh_def attempt_afresh_def riot_address_def riot_attempt_reconnect_def andthen_def)

lemma riot_on_wire:
  "riot_request (logged_http net) ty msg (h, (e, l)) =
     first_answer is_std_exception
       ((case m_client h of None \<Rightarrow> [] | Some c \<Rightarrow> [riot_over net c ty msg]) @ [riot_afresh net ty msg]) (h, (e, l))"
proof (cases "m_client h")
  case None
  then have "h\<lparr>m_client := None\<rparr> = h" by simp
  with None riot_retry_afresh [of net ty msg h e l] show ?thesis by (simp add: riot_branches)
next
  case (Some c)
  obtain r e' l' where "riot_send_request (logged_http net) ty msg (h, (e, l)) = (r, (h, (e', l')))"
    using riot_send_total [of h "logged_http net" ty msg "(e, l)"] Some by auto
  moreover from this riot_send_over [OF Some, of net ty msg "(e, l)"] have
    "riot_over net c ty msg (h, (e, l)) = (r, (h, (e', l')))" by simp
  ultimately show ?thesis
    using Some riot_retry_afresh [of net ty msg h e' l'] by (cases r) (simp_all add: riot_branches Let_def)
qed

text \<open>C18. \<open>Riot_rest_handler::request\<close>, down to what POCO is asked to do. The attempts, in turn: over the cached
  session if there is one, to its host and port; then over a new session to port 443 of the selected region's host,
  or \<open>No_region_selected_exception\<close> in its place. Each sends one message, with the method of the request type, the
  given path and the API key in \<open>X-Riot-Token\<close>, and receives one response. The second is made only after an
  exception that is a \<open>std::exception\<close>; the first attempt that ends otherwise, or the last, is the outcome. A client
  is kept exactly if its session has been opened and not been given up. The message is sent at most twice, once
  without a cached session, and no null \<open>m_client\<close> is dereferenced.\<close>

theorem riot_request_on_the_wire:
  "riot_request (logged_http net) ty msg (h, (e, l)) =
     first_answer is_std_exception
       ((case m_client h of None \<Rightarrow> [] | Some c \<Rightarrow> [riot_over net c ty msg]) @ [riot_afresh net ty msg]) (h, (e, l)) \<and>
   \<not> is_abort (fst (riot_request (logged_http net) ty msg (h, (e, l)))) \<and>
   sends (snd (snd (snd (riot_request (logged_http net) ty msg (h, (e, l)))))) \<le>
     sends l + (if m_client h = None then 1 else 2)"
proof -
  obtain r h' e' l' where r: "riot_request (logged_http net) ty msg (h, (e, l)) = (r, (h', (e', l')))" "\<not> is_abort r"
    using riot.total [of "logged_http net" ty msg h "(e, l)"] by auto
  from riot_log.at_most_two [OF r(1)] have "sends l' \<le> sends l + (if m_client h = None then 1 else 2)"
    by (cases "m_client h") (simp_all add: log_sent_def)
  with r riot_on_wire [of net ty msg h e l] show ?thesis by simp
qed

text \<open>A call of \<open>Riot_rest_handler::request\<close> ends with a response or an exception, never with a
  null \<open>m_client\<close> dereferenced; after a response the handler holds a client, and the region and the
  API key never change.\<close>

theorem riot_request_total:
  "\<exists>r h' e'. riot_request net ty msg (h, e) = (r, (h', e')) \<and> \<not> is_abort r \<and>
     (is_ok r \<longrightarrow> m_client h' \<noteq> None) \<and> m_region h' = m_region h \<and> m_api_key h' = m_api_key h"
proof -
  obtain r h' e' where "riot_request net ty msg (h, e) = (r, (h', e'))" "\<not> is_abort r"
    "is_ok r \<longrightarrow> m_client h' \<noteq> None"
    using riot.total [of net ty msg h e] by blast
  moreover have "same_settings (h, e) (snd (riot_request net ty msg (h, e)))"
    by (rule keepsD [OF riot_request_settings])
  ultimately show ?thesis by (auto simp: same_settings_def)
qed

text \<open>A call of \<open>Riot_rest_handler::request\<close> sends the HTTP request at most twice, and at most
  once when no client was connected before the call.\<close>

theorem riot_request_at_most_two:
  assumes "riot_request (logged_http net) ty msg (h, el) = (r, (h', el'))"
  shows "log_sent el' \<le> log_sent el + (if m_client h \<noteq> None then 2 else 1)"
  using riot_log.at_most_two [OF assms] by simp

text \<open>With no region selected and no client, the request throws
  \<open>No_region_selected_exception\<close>, touches neither the network nor the handler.\<close>

theorem riot_no_region:
  assumes "m_client h = None" and "m_region h = Region_none"
  shows "riot_request net ty msg (h, e) =
     (Throw (Rito No_region_selected_exception ''You have to select region first''), (h, e))"
  using riot.fresh [of h net ty msg e] assms by (simp add: riot_attempt_reconnect_def andthen_def)

theorem riot_no_region_witness:
  "riot_request answering_http Http_get ''/x'' (riot_rest_handler ''key'', 0) =
     (Throw (Rito No_region_selected_exception ''You have to select region first''),
      (riot_rest_handler ''key'', 0))"
  by (rule riot_no_region) (simp_all add: riot_rest_handler_def)

text \<open>Once a client is connected, \<open>set_region\<close> has no effect on the requests that follow as long
  as they succeed: whatever region is set, \<open>none\<close> included, the request goes over the old session and
  to the old host.\<close>

theorem riot_set_region_ignored:
  assumes "m_client h = Some c"
    and "request net c ty msg [(''X-Riot-Token'', m_api_key h)] e = (Ok r, e')"
  shows "riot_request net ty msg (set_region rg h, e) = (Ok r, (set_region rg h, e'))"
proof -
  have "riot_send_request net ty msg (set_region rg h, e) = (Ok r, (set_region rg h, e'))"
    using assms by (simp add: riot_send_request_def set_region_def on_env_apply)
  then show ?thesis
    by (rule riot.cached_ok [rotated]) (simp add: set_region_def assms(1))
qed

text \<open>The witnesses' handler after one successful request.\<close>

definition connected_handler :: "nat riot_handler" where
  "connected_handler = \<lparr>m_region = Euw, m_api_key = ''key'', m_client = Some
     \<lparr>rc_host = ''euw1.api.riotgames.com'', rc_port = 443, rc_session = 0, rc_username = [], rc_password = []\<rparr>\<rparr>"

theorem riot_request_at_most_two_witness:
  "\<exists>r h' el'. riot_request (logged_http failing_http) Http_get ''/x'' (connected_handler, (1, [])) = (r, (h', el'))
     \<and> log_sent el' = 2 \<and> log_sent el' \<le> log_sent (1 :: nat, [] :: nat http_event list) + 2"
proof -
  obtain r h' el' where r: "riot_request (logged_http failing_http) Http_get ''/x'' (connected_handler, (1, []))
      = (r, (h', el'))"
    by (metis prod.collapse)
  from riot_request_at_most_two [OF r] have "log_sent el' \<le> log_sent (1 :: nat, [] :: nat http_event list) + 2"
    by (simp add: connected_handler_def)
  moreover from r have "log_sent el' = 2"
    by (auto simp: riot_branches riot_send_request_def riot_attempt_reconnect_def on_env_def
        connected_handler_def eval_http log_sent_def Let_def)
  ultimately show ?thesis using r by blast
qed

theorem riot_request_total_witness:
  "\<exists>h' e'. riot_request answering_http Http_get ''/x'' (connected_handler, 1) =
       (Ok \<lparr>status = 200, reason = ''OK'', response = ''{}''\<rparr>, (h', e')) \<and> m_client h' \<noteq> None"
proof -
  have "fst (riot_request answering_http Http_get ''/x'' (connected_handler, 1)) =
      Ok \<lparr>status = 200, reason = ''OK'', response = ''{}''\<rparr>"
    by (simp add: riot_branches riot_send_request_def on_env_def connected_handler_def eval_http Let_def)
  with riot_request_total [of answering_http Http_get "''/x''" connected_handler 1] show ?thesis by auto
qed

text \<open>The cached session is dead, the new one answers.\<close>

definition flaky_http :: "(nat, nat) poco_http" where
  "flaky_http = answering_http\<lparr>session_send := \<lambda>s q n.
     (if s = 0 then Inl (Poco Other_poco_exception ''Connection reset'') else Inr (), n)\<rparr>"

theorem riot_request_on_the_wire_witness:
  "\<exists>h'. riot_request (logged_http flaky_http) Http_get ''/x'' (set_region Kr connected_handler, (1, [])) =
     (Ok \<lparr>status = 200, reason = ''OK'', response = ''{}''\<rparr>, (h', (2,
        let message = (\<lambda>host. \<lparr>req_method = HTTP_GET, req_uri = ''/x'', req_version = HTTP_1_1,
             req_calls = [SetHost host 443, SetKeepAlive True, SetHeader ''X-Riot-Token'' ''key'']\<rparr>)
        in [Sent 0 (message ''euw1.api.riotgames.com''), Opened ''kr.api.riotgames.com'' 443,
            Sent 1 (message ''kr.api.riotgames.com''), Received 1])))"
  by (simp add: riot_request_on_the_wire [THEN conjunct1] riot_over_def riot_afresh_def attempt_afresh_def riot_address_def
      riot_headers_def wire_request_def http_exchange_def on_env_def flaky_http_def answering_http_def
      connected_handler_def set_region_def Let_def)

theorem riot_set_region_ignored_witness:
  "riot_request answering_http Http_get ''/x'' (set_region Kr connected_handler, 1) =
     (Ok \<lparr>status = 200, reason = ''OK'', response = ''{}''\<rparr>, (set_region Kr connected_handler, 1))"
  by (rule riot_set_region_ignored [where c = "the (m_client connected_handler)"])
     (simp_all add: connected_handler_def eval_http)

text \<open>What a first successful request does on the network.\<close>

lemma riot_first_log:
  assumes "cred_empty net [] []" and "m_client h = None"
    and "riot_request (logged_http net) ty msg (h, (e, [])) = (Ok r, (h', (e', l)))"
  shows "m_region h \<noteq> Region_none \<and>
     (\<exists>s m. to_poco_request_type ty = Inr m \<and>
        l = [Opened (get_host_by_region (m_region h)) https_port,
             Sent s \<lparr>req_method = m, req_uri = msg, req_version = HTTP_1_1,
               req_calls = [SetHost (get_host_by_region (m_region h)) https_port, SetKeepAlive True,
                 SetHeader ''X-Riot-Token'' (m_api_key h)]\<rparr>,
             Received s])"
  using assms
  by (auto simp: riot_branches riot_send_request_def riot_attempt_reconnect_def on_env_def
      eval_http Let_def of_sum_def split: prod.splits sum.splits if_splits res.splits exn.splits poco_class.splits)

text \<open>The first successful request of a handler opens one session, to port 443 of the host of the
  selected region, which is the host of no other region if it has a name, and sends one request over it: the method
  named by the request type, the given path, HTTP/1.1, that same host, keep-alive and the API key in
  the \<open>X-Riot-Token\<close> header. It relies on POCO's fresh credentials being empty.\<close>

theorem riot_first_request:
  assumes "cred_empty net [] []" and "m_client h = None"
    and "riot_request (logged_http net) ty msg (h, (e, [])) = (Ok r, (h', (e', l)))"
  shows "m_region h \<noteq> Region_none \<and> (m_region h \<in> set named_regions \<longrightarrow>
       (\<forall>rg. hd l = Opened (get_host_by_region rg) https_port \<longleftrightarrow> rg = m_region h)) \<and>
     (\<exists>s m. to_poco_request_type ty = Inr m \<and>
        l = [Opened (get_host_by_region (m_region h)) https_port,
             Sent s \<lparr>req_method = m, req_uri = msg, req_version = HTTP_1_1,
               req_calls = [SetHost (get_host_by_region (m_region h)) https_port, SetKeepAlive True,
                 SetHeader ''X-Riot-Token'' (m_api_key h)]\<rparr>,
             Received s])"
proof -
  note log = riot_first_log [OF assms]
  then obtain l' where "l = Opened (get_host_by_region (m_region h)) https_port # l'" by blast
  then have "m_region h \<in> set named_regions \<longrightarrow>
      (\<forall>rg. hd l = Opened (get_host_by_region rg) https_port \<longleftrightarrow> rg = m_region h)"
    using hosts_distinct [of "m_region h"] by auto
  with log show ?thesis by blast
qed

text \<open>C40. What POCO throws while a new connection sends is passed on unchanged: an exception that is
  neither a \<open>Message_exception\<close> nor an \<open>Unknown_exception\<close>, nor any \<open>rito::Exception\<close>, reaches the
  caller.\<close>

theorem riot_poco_exception_escapes:
  assumes "m_client h = None" and "m_region h \<noteq> Region_none"
    and "new_session net (get_host_by_region (m_region h)) https_port e = (Inr s, d)"
    and "to_poco_request_type ty = Inr m"
    and "\<And>q. session_send net s q d = (Inl (Poco k w), d')"
  shows "\<exists>h'. riot_request net ty msg (h, e) = (Throw (Poco k w), (h', d')) \<and>
     \<not> is_rito_exception (Poco k w)"
  using assms
  by (simp add: riot_branches riot_send_request_def riot_attempt_reconnect_def on_env_def
      eval_http Let_def of_sum_def)

theorem riot_poco_exception_escapes_witness:
  "\<exists>h'. riot_request failing_http Http_get ''/x'' (set_region Na (riot_rest_handler ''key''), 0) =
     (Throw (Poco Other_poco_exception ''Connection refused''), (h', 1)) \<and>
     \<not> is_rito_exception (Poco Other_poco_exception ''Connection refused'')"
  by (rule riot_poco_exception_escapes [where s = 0 and d = 1 and m = HTTP_GET])
     (simp_all add: set_region_def riot_rest_handler_def failing_http_def answering_http_def)

theorem riot_first_request_witness:
  "\<exists>r h' e' l. riot_request (logged_http answering_http) Http_get ''/x''
       (set_region Kr (riot_rest_handler ''key''), (0, [])) = (Ok r, (h', (e', l))) \<and>
     (\<exists>s. l = [Opened ''kr.api.riotgames.com'' https_port,
        Sent s \<lparr>req_method = HTTP_GET, req_uri = ''/x'', req_version = HTTP_1_1,
          req_calls = [SetHost ''kr.api.riotgames.com'' https_port, SetKeepAlive True,
            SetHeader ''X-Riot-Token'' ''key'']\<rparr>, Received s])"
proof -
  let ?h = "set_region Kr (riot_rest_handler ''key'') :: nat riot_handler"
  obtain r h' e' l where r: "riot_request (logged_http answering_http) Http_get ''/x'' (?h, (0, []))
      = (Ok r, (h', (e', l)))"
    by (simp add: riot_branches riot_send_request_def riot_attempt_reconnect_def on_env_def
        set_region_def riot_rest_handler_def eval_http Let_def)
  have "cred_empty answering_http [] []" "m_client ?h = None"
    by (simp_all add: answering_http_def set_region_def riot_rest_handler_def)
  from riot_first_request [OF this r] r show ?thesis
    by (auto simp: set_region_def riot_rest_handler_def)
qed

end
