(* ===== verification/Std_Regex.thy ===== *)
theory Std_Regex
  imports Rito_Prelude
begin

text \<open>
  The fragment of \<open>std::regex\<close> (ECMAScript grammar) that the code's two patterns use: literal
  characters, bracket classes and their complements, concatenation, the greedy \<open>+\<close> and one
  capture group. \<open>rx_matches\<close> lists the matches of a pattern at the start of a string in the
  order in which a backtracking matcher tries them, each with the group's text and the rest of
  the string; \<open>regex_search\<close> takes the first match at the leftmost position that has one. The
  lemmas relate the search to a declarative description of where a delimited parameter occurs.
\<close>

datatype rx =
    Lit char
  | In_class "(char \<times> char) list"
  | Not_in_class "(char \<times> char) list"
  | Cat rx rx
  | Plus rx
  | Group rx

definition in_range :: "char \<Rightarrow> char \<times> char \<Rightarrow> bool" where
  "in_range c r \<longleftrightarrow> (of_char (fst r) :: nat) \<le> of_char c \<and> (of_char c :: nat) \<le> of_char (snd r)"

definition in_class :: "(char \<times> char) list \<Rightarrow> char \<Rightarrow> bool" where
  "in_class rs c \<longleftrightarrow> list_ex (in_range c) rs"

type_synonym rx_match = "string option \<times> string"

definition later_group :: "string option \<Rightarrow> string option \<Rightarrow> string option" where
  "later_group g h = (case h of None \<Rightarrow> g | Some t \<Rightarrow> Some t)"

text \<open>
  One or more rounds of a matcher, longest first. A round after the first must consume
  something; the fuel bounds the number of rounds, and one more than the length of the string
  is enough (\<open>rx_plus_fuel\<close>).
\<close>

fun rx_plus :: "(string \<Rightarrow> rx_match list) \<Rightarrow> nat \<Rightarrow> string \<Rightarrow> rx_match list" where
  "rx_plus m 0 s = []"
| "rx_plus m (Suc n) s =
     concat (map (\<lambda>(g, t). (if length t < length s
                            then map (\<lambda>(h, u). (later_group g h, u)) (rx_plus m n t) else [])
                           @ [(g, t)]) (m s))"

fun rx_matches :: "rx \<Rightarrow> string \<Rightarrow> rx_match list" where
  "rx_matches (Lit c) s = (case s of [] \<Rightarrow> [] | x # t \<Rightarrow> if x = c then [(None, t)] else [])"
| "rx_matches (In_class rs) s =
     (case s of [] \<Rightarrow> [] | x # t \<Rightarrow> if in_class rs x then [(None, t)] else [])"
| "rx_matches (Not_in_class rs) s =
     (case s of [] \<Rightarrow> [] | x # t \<Rightarrow> if in_class rs x then [] else [(None, t)])"
| "rx_matches (Cat p q) s =
     concat (map (\<lambda>(g, t). map (\<lambda>(h, u). (later_group g h, u)) (rx_matches q t)) (rx_matches p s))"
| "rx_matches (Plus p) s = rx_plus (rx_matches p) (Suc (length s)) s"
| "rx_matches (Group p) s =
     map (\<lambda>(g, t). (Some (take (length s - length t) s), t)) (rx_matches p s)"

text \<open>\<open>std::regex_search\<close>: the group's text of the first match at the leftmost position.\<close>

fun regex_search :: "rx \<Rightarrow> string \<Rightarrow> string option option" where
  "regex_search p [] = (case rx_matches p [] of [] \<Rightarrow> None | (g, _) # _ \<Rightarrow> Some g)"
| "regex_search p (c # cs) =
     (case rx_matches p (c # cs) of [] \<Rightarrow> regex_search p cs | (g, _) # _ \<Rightarrow> Some g)"

fun rx_string :: "string \<Rightarrow> rx \<Rightarrow> rx" where
  "rx_string [] q = q"
| "rx_string (c # cs) q = Cat (Lit c) (rx_string cs q)"

text \<open>
  The shape of the code's two patterns: a label, a captured non-empty run of class characters,
  one character outside the class.
\<close>

definition param_pattern :: "string \<Rightarrow> (char \<times> char) list \<Rightarrow> rx" where
  "param_pattern lbl rs = rx_string lbl (Cat (Group (Plus (In_class rs))) (Not_in_class rs))"

subsection \<open>Every match leaves a suffix, and the fuel of \<open>+\<close> is enough\<close>

lemma rx_plus_suffix:
  assumes "\<And>s g t. (g, t) \<in> set (m s) \<Longrightarrow> suffix t s"
  shows "(g, t) \<in> set (rx_plus m n s) \<Longrightarrow> suffix t s"
proof (induction n arbitrary: s g t)
  case 0
  then show ?case by simp
next
  case (Suc n)
  then obtain h u where hu: "(h, u) \<in> set (m s)"
    and t: "t = u \<or> (\<exists>k. (k, t) \<in> set (rx_plus m n u))"
    by (fastforce split: if_splits)
  from t have "suffix t u" using Suc.IH by auto
  moreover from hu have "suffix u s" by (rule assms)
  ultimately show ?case by (rule suffix_order.order_trans)
qed

lemma rx_matches_suffix: "(g, t) \<in> set (rx_matches p s) \<Longrightarrow> suffix t s"
proof (induction p arbitrary: s g t)
  case (Cat p q)
  then obtain h u k where "(h, u) \<in> set (rx_matches p s)" "(k, t) \<in> set (rx_matches q u)"
    by auto
  then have "suffix t u" "suffix u s" using Cat.IH by blast+
  then show ?case by (rule suffix_order.order_trans)
next
  case (Plus p)
  then show ?case by (auto intro: rx_plus_suffix simp del: rx_plus.simps)
qed (auto split: list.splits if_splits simp: suffix_Cons)

lemma rx_plus_fuel_Suc:
  assumes "\<And>s g t. (g, t) \<in> set (m s) \<Longrightarrow> suffix t s"
  shows "length s < n \<Longrightarrow> rx_plus m (Suc n) s = rx_plus m n s"
proof (induction n arbitrary: s)
  case 0
  then show ?case by simp
next
  case (Suc n)
  have "(if length t < length s then map (\<lambda>(h, u). (later_group g h, u)) (rx_plus m (Suc n) t) else [])
      = (if length t < length s then map (\<lambda>(h, u). (later_group g h, u)) (rx_plus m n t) else [])" for g t
    using Suc.IH [of t] Suc.prems by simp
  then show ?case by (subst (1 2) rx_plus.simps(2)) (simp del: rx_plus.simps)
qed

text \<open>Any fuel above the length gives the same matches: the bound loses none.\<close>

lemma rx_plus_fuel:
  assumes "length s < n" shows "rx_plus (rx_matches p) n s = rx_matches (Plus p) s"
proof -
  have "rx_plus (rx_matches p) (Suc (length s) + k) s = rx_plus (rx_matches p) (Suc (length s)) s" for k
  proof (induction k)
    case (Suc k)
    have "rx_plus (rx_matches p) (Suc (Suc (length s) + k)) s = rx_plus (rx_matches p) (Suc (length s) + k) s"
      by (rule rx_plus_fuel_Suc) (auto intro: rx_matches_suffix)
    with Suc.IH show ?case by (simp only: add_Suc_right)
  qed simp
  from this [of "n - Suc (length s)"] assms show ?thesis by (simp del: rx_plus.simps)
qed

subsection \<open>The matches of a delimited run\<close>

lemma rx_plus_class:
  "length s < n \<Longrightarrow> rx_plus (rx_matches (In_class rs)) n s =
     map (\<lambda>k. (None, drop k s)) (rev [1..<Suc (length (takeWhile (in_class rs) s))])"
proof (induction s arbitrary: n)
  case Nil
  then show ?case by (cases n) simp_all
next
  case (Cons x t)
  then obtain k where n: "n = Suc k" and k: "length t < k" by (cases n) auto
  have class_Cons: "rx_matches (In_class rs) (x # t) = (if in_class rs x then [(None, t)] else [])"
    by simp
  have "[1..<Suc (Suc l)] = 1 # map Suc [1..<Suc l]" for l
    by (simp add: map_Suc_upt upt_conv_Cons del: upt_Suc)
  then have shift: "rev [Suc 0..<Suc (Suc l)] = map Suc (rev [Suc 0..<Suc l]) @ [Suc 0]" for l
    by (simp add: rev_map del: upt_Suc)
  show ?case
  proof (cases "in_class rs x")
    case True
    then show ?thesis
      by (simp add: n class_Cons Cons.IH [OF k] shift later_group_def comp_def
          del: upt_Suc rx_matches.simps)
  next
    case False
    then show ?thesis by (simp add: n class_Cons del: rx_matches.simps)
  qed
qed

lemma rx_group_class:
  "rx_matches (Group (Plus (In_class rs))) s =
     map (\<lambda>k. (Some (take k s), drop k s)) (rev [1..<Suc (length (takeWhile (in_class rs) s))])"
proof -
  have le: "length (takeWhile (in_class rs) s) \<le> length s" by (rule length_takeWhile_le)
  show ?thesis
    using le by (auto simp: rx_plus_class simp del: upt_Suc rx_plus.simps)
qed

lemma rx_delimited:
  "rx_matches (Cat (Group (Plus (In_class rs))) (Not_in_class rs)) s =
     (let t = takeWhile (in_class rs) s; r = dropWhile (in_class rs) s
      in if t \<noteq> [] \<and> r \<noteq> [] then [(Some t, tl r)] else [])"
proof -
  let ?l = "length (takeWhile (in_class rs) s)"
  have inner: "rx_matches (Not_in_class rs) (drop k s) = []" if "k < ?l" for k
  proof -
    have "k < length s" using that length_takeWhile_le [of "in_class rs" s] by linarith
    moreover have "in_class rs (s ! k)"
      using that by (metis nth_mem set_takeWhileD takeWhile_nth)
    ultimately show ?thesis by (simp add: Cons_nth_drop_Suc [symmetric])
  qed
  have last: "rx_matches (Not_in_class rs) (drop ?l s) =
      (if dropWhile (in_class rs) s = [] then [] else [(None, tl (dropWhile (in_class rs) s))])"
    using hd_dropWhile [of "in_class rs" s] unfolding dropWhile_eq_drop [symmetric]
    by (cases "dropWhile (in_class rs) s") (simp_all del: dropWhile_eq_Nil_conv)
  have "rx_matches (Cat (Group (Plus (In_class rs))) (Not_in_class rs)) s =
      concat (map (\<lambda>k. map (\<lambda>(h, u). (later_group (Some (take k s)) h, u))
        (rx_matches (Not_in_class rs) (drop k s))) (rev [1..<Suc ?l]))"
    by (simp only: rx_matches.simps(4) rx_group_class) (simp add: comp_def del: upt_Suc rx_matches.simps)
  also have "\<dots> = (if ?l = 0 then [] else map (\<lambda>(h, u). (later_group (Some (take ?l s)) h, u))
        (rx_matches (Not_in_class rs) (drop ?l s)))"
  proof (cases ?l)
    case (Suc l)
    have "concat (map (\<lambda>k. map (\<lambda>(h, u). (later_group (Some (take k s)) h, u))
        (rx_matches (Not_in_class rs) (drop k s))) (rev [1..<Suc l])) = []"
      using inner Suc by (simp add: concat_eq_Nil_conv del: rx_matches.simps upt_Suc)
    with Suc show ?thesis by (simp del: rx_matches.simps)
  qed simp
  finally show ?thesis
    by (simp add: last Let_def later_group_def takeWhile_eq_take [symmetric] del: rx_matches.simps)
qed

lemma rx_string_matches:
  "rx_matches (rx_string lbl q) s =
     (if prefix lbl s then rx_matches q (drop (length lbl) s) else [])"
proof (induction lbl arbitrary: s)
  case (Cons c cs)
  have id: "(\<lambda>(h, u). (later_group None h, u)) = (\<lambda>m. m)"
    by (auto simp: fun_eq_iff later_group_def split: option.split)
  show ?case by (cases s) (simp_all add: Cons.IH id)
qed simp

subsection \<open>What the search finds\<close>

text \<open>
  \<open>param_here lbl rs s t\<close>: \<open>s\<close> starts with the label, then \<open>t\<close>, a non-empty run of class
  characters, then a character outside the class. \<open>first_param\<close>: the leftmost such place.
\<close>

definition param_here :: "string \<Rightarrow> (char \<times> char) list \<Rightarrow> string \<Rightarrow> string \<Rightarrow> bool" where
  "param_here lbl rs s t \<longleftrightarrow>
     (\<exists>c post. s = lbl @ t @ c # post \<and> t \<noteq> [] \<and> list_all (in_class rs) t \<and> \<not> in_class rs c)"

definition no_param :: "string \<Rightarrow> (char \<times> char) list \<Rightarrow> string \<Rightarrow> bool" where
  "no_param lbl rs s \<longleftrightarrow> (\<forall>pre suf t. s = pre @ suf \<longrightarrow> \<not> param_here lbl rs suf t)"

definition first_param :: "string \<Rightarrow> (char \<times> char) list \<Rightarrow> string \<Rightarrow> string \<Rightarrow> bool" where
  "first_param lbl rs s t \<longleftrightarrow>
     (\<exists>pre suf. s = pre @ suf \<and> param_here lbl rs suf t \<and>
        (\<forall>p q u. s = p @ q \<and> length p < length pre \<longrightarrow> \<not> param_here lbl rs q u))"

lemma takeWhile_run:
  "list_all P t \<Longrightarrow> \<not> P c \<Longrightarrow> takeWhile P (t @ c # post) = t"
  by (induction t) auto

lemma dropWhile_run:
  "list_all P t \<Longrightarrow> \<not> P c \<Longrightarrow> dropWhile P (t @ c # post) = c # post"
  by (induction t) auto

lemma dropWhile_ConsD: "dropWhile P xs = c # post \<Longrightarrow> \<not> P c"
  by (induction xs) (auto split: if_splits)

lemma list_all_takeWhile: "list_all P (takeWhile P xs)"
  by (induction xs) auto

lemma param_pattern_matches:
  "rx_matches (param_pattern lbl rs) s = ms \<Longrightarrow>
     (param_here lbl rs s t \<longleftrightarrow> (\<exists>u. ms = [(Some t, u)])) \<and> (ms = [] \<longleftrightarrow> (\<forall>t. \<not> param_here lbl rs s t))"
proof -
  assume ms: "rx_matches (param_pattern lbl rs) s = ms"
  let ?r = "drop (length lbl) s"
  let ?t = "takeWhile (in_class rs) ?r" and ?d = "dropWhile (in_class rs) ?r"
  have shape: "ms = (if prefix lbl s \<and> ?t \<noteq> [] \<and> ?d \<noteq> [] then [(Some ?t, tl ?d)] else [])"
    unfolding ms [symmetric] param_pattern_def rx_string_matches rx_delimited by (simp add: Let_def)
  have here: "param_here lbl rs s u \<longleftrightarrow> prefix lbl s \<and> ?t \<noteq> [] \<and> ?d \<noteq> [] \<and> u = ?t" for u
  proof
    assume "param_here lbl rs s u"
    then obtain c post where s: "s = lbl @ u @ c # post" and u: "u \<noteq> []"
      and run: "list_all (in_class rs) u" "\<not> in_class rs c"
      unfolding param_here_def by blast
    from s have r: "?r = u @ c # post" by simp
    show "prefix lbl s \<and> ?t \<noteq> [] \<and> ?d \<noteq> [] \<and> u = ?t"
      unfolding r takeWhile_run [OF run] dropWhile_run [OF run] using u by (simp add: s)
  next
    assume h: "prefix lbl s \<and> ?t \<noteq> [] \<and> ?d \<noteq> [] \<and> u = ?t"
    then obtain c post where d: "?d = c # post" by (cases ?d) auto
    from h have "s = lbl @ ?r" by (auto simp: prefix_def)
    also have "?r = ?t @ c # post"
      using takeWhile_dropWhile_id [of "in_class rs" ?r, symmetric] unfolding d .
    finally have "s = lbl @ ?t @ c # post" .
    moreover from d have "\<not> in_class rs c" by (rule dropWhile_ConsD)
    moreover have "list_all (in_class rs) ?t" by (rule list_all_takeWhile)
    ultimately show "param_here lbl rs s u" using h unfolding param_here_def by blast
  qed
  show ?thesis by (auto simp: shape here)
qed

lemma param_here_unique: "param_here lbl rs s t \<Longrightarrow> param_here lbl rs s u \<Longrightarrow> t = u"
  using param_pattern_matches [OF refl, of lbl rs s t] param_pattern_matches [OF refl, of lbl rs s u] by auto

lemma no_param_Cons:
  "no_param lbl rs (c # cs) \<longleftrightarrow> (\<forall>t. \<not> param_here lbl rs (c # cs) t) \<and> no_param lbl rs cs"
  by (auto simp: no_param_def Cons_eq_append_conv)

lemma first_param_here: "param_here lbl rs s t \<Longrightarrow> first_param lbl rs s u \<longleftrightarrow> u = t"
proof
  assume t: "param_here lbl rs s t" and "first_param lbl rs s u"
  then obtain pre suf where s: "s = pre @ suf" and u: "param_here lbl rs suf u"
    and min: "\<And>p q v. s = p @ q \<Longrightarrow> length p < length pre \<Longrightarrow> \<not> param_here lbl rs q v"
    by (auto simp: first_param_def)
  from min [of "[]" s t] t have "pre = []" by auto
  with s u t show "u = t" by (auto dest: param_here_unique)
next
  assume "param_here lbl rs s t" and "u = t"
  then show "first_param lbl rs s u"
    unfolding first_param_def by (intro exI [of _ "[]"] exI [of _ s]) simp
qed

lemma first_param_Cons:
  assumes "\<forall>t. \<not> param_here lbl rs (c # cs) t"
  shows "first_param lbl rs (c # cs) u \<longleftrightarrow> first_param lbl rs cs u"
proof
  assume "first_param lbl rs (c # cs) u"
  then obtain pre suf where s: "c # cs = pre @ suf" and u: "param_here lbl rs suf u"
    and min: "\<And>p q v. c # cs = p @ q \<Longrightarrow> length p < length pre \<Longrightarrow> \<not> param_here lbl rs q v"
    by (auto simp: first_param_def)
  from assms s u obtain pre' where pre: "pre = c # pre'" "cs = pre' @ suf"
    by (cases pre) auto
  have "\<not> param_here lbl rs q v" if "cs = p @ q" "length p < length pre'" for p q v
    using min [of "c # p" q v] that pre by simp
  with pre u show "first_param lbl rs cs u" unfolding first_param_def by blast
next
  assume "first_param lbl rs cs u"
  then obtain pre suf where s: "cs = pre @ suf" and u: "param_here lbl rs suf u"
    and min: "\<And>p q v. cs = p @ q \<Longrightarrow> length p < length pre \<Longrightarrow> \<not> param_here lbl rs q v"
    by (auto simp: first_param_def)
  have "\<not> param_here lbl rs q v" if "c # cs = p @ q" "length p < length (c # pre)" for p q v
    using assms min that by (cases p) auto
  with s u show "first_param lbl rs (c # cs) u"
    unfolding first_param_def by (metis append_Cons)
qed

theorem regex_search_Some:
  "regex_search (param_pattern lbl rs) s = Some g \<longleftrightarrow> (\<exists>t. g = Some t \<and> first_param lbl rs s t)"
proof (induction s)
  case Nil
  have none: "\<forall>t. \<not> param_here lbl rs [] t" by (simp add: param_here_def)
  then have "rx_matches (param_pattern lbl rs) [] = []" using param_pattern_matches [OF refl] by blast
  moreover have "\<not> first_param lbl rs [] t" for t using none by (simp add: first_param_def)
  ultimately show ?case by simp
next
  case (Cons c cs)
  show ?case
  proof (cases "\<exists>t. param_here lbl rs (c # cs) t")
    case True
    then obtain t where t: "param_here lbl rs (c # cs) t" ..
    then obtain u where "rx_matches (param_pattern lbl rs) (c # cs) = [(Some t, u)]"
      using param_pattern_matches [OF refl] by blast
    then show ?thesis by (auto simp: first_param_here [OF t])
  next
    case False
    then have no: "\<forall>t. \<not> param_here lbl rs (c # cs) t" by blast
    then have "rx_matches (param_pattern lbl rs) (c # cs) = []"
      using param_pattern_matches [OF refl] by blast
    then show ?thesis by (simp add: Cons.IH first_param_Cons [OF no])
  qed
qed

theorem regex_search_None: "regex_search (param_pattern lbl rs) s = None \<longleftrightarrow> no_param lbl rs s"
proof (induction s)
  case Nil
  have none: "\<forall>t. \<not> param_here lbl rs [] t" by (simp add: param_here_def)
  then have "rx_matches (param_pattern lbl rs) [] = []" using param_pattern_matches [OF refl] by blast
  with none show ?case by (simp add: no_param_def)
next
  case (Cons c cs)
  show ?case
  proof (cases "rx_matches (param_pattern lbl rs) (c # cs)")
    case Nil
    then have "\<forall>t. \<not> param_here lbl rs (c # cs) t" using param_pattern_matches by blast
    with Nil Cons.IH show ?thesis by (simp add: no_param_Cons)
  next
    case (Cons m ms)
    then have "\<exists>t. param_here lbl rs (c # cs) t" using param_pattern_matches by blast
    with Cons show ?thesis by (auto simp: no_param_Cons split: prod.split)
  qed
qed

lemma first_param_unique: "first_param lbl rs s t \<Longrightarrow> first_param lbl rs s u \<Longrightarrow> t = u"
  using regex_search_Some [of lbl rs s "Some t"] regex_search_Some [of lbl rs s "Some u"] by auto

lemma first_param_run: "first_param lbl rs s t \<Longrightarrow> t \<noteq> [] \<and> list_all (in_class rs) t"
  by (auto simp: first_param_def param_here_def)

lemma first_param_sublist: "first_param lbl rs s t \<Longrightarrow> sublist (lbl @ t) s"
  by (fastforce simp: first_param_def param_here_def sublist_def)

end
