(* ===== verification/Lcu_Params.thy ===== *)
theory Lcu_Params
  imports Rito_Types Std_Regex
begin

text \<open>
  \<open>src/lcu_process_handler_helpers.cpp\<close> and the part of \<open>get_lcu_process_parameters\<close> that the
  Linux and the Windows implementation share: the two \<open>std::regex_search\<close> extractions, the
  digit check on process names, \<open>std::stoi\<close> and the narrowing cast of the port. The locale
  \<open>param_extractor\<close> is the contract of the two extractions; both are interpretations of it.
\<close>

subsection \<open>The struct and the patterns\<close>

record lcu_parameters =
  remoting_auth_token :: string
  app_port :: "16 word"

definition token_label :: string where
  "token_label = ''--remoting-auth-token=''"

definition port_label :: string where
  "port_label = ''--app-port=''"

text \<open>\<open>[a-zA-Z0-9-_]\<close>: after the range \<open>0-9\<close> the dash and the underscore are literal.\<close>

definition token_class :: "(char \<times> char) list" where
  "token_class = [(CHR ''a'', CHR ''z''), (CHR ''A'', CHR ''Z''), (CHR ''0'', CHR ''9''),
     (CHR ''-'', CHR ''-''), (CHR ''_'', CHR ''_'')]"

text \<open>\<open>\d\<close>; its complement \<open>\D\<close> ends the port.\<close>

definition digit_class :: "(char \<times> char) list" where
  "digit_class = [(CHR ''0'', CHR ''9'')]"

definition token_regex :: rx where
  "token_regex = param_pattern token_label token_class"

definition port_regex :: rx where
  "port_regex = param_pattern port_label digit_class"

text \<open>\<open>match[1]\<close> as a string: empty when the group took no part in the match.\<close>

definition sub_match :: "string option \<Rightarrow> string" where
  "sub_match g = (case g of None \<Rightarrow> [] | Some t \<Rightarrow> t)"

definition extract_remoting_auth_token :: "string \<Rightarrow> exn + string" where
  "extract_remoting_auth_token lcu_command =
     (case regex_search token_regex lcu_command of
        Some token_match \<Rightarrow> Inr (sub_match token_match)
      | None \<Rightarrow> Inl (Rito Lcu_parameters_exception
          ''Unable to extract remoting auth token from League Client launch command''))"

definition extract_app_port :: "string \<Rightarrow> exn + string" where
  "extract_app_port lcu_command =
     (case regex_search port_regex lcu_command of
        Some port_match \<Rightarrow> Inr (sub_match port_match)
      | None \<Rightarrow> Inl (Rito Lcu_parameters_exception
          ''Unable to extract app port from League Client launch command''))"

definition is_positive_integer :: "string \<Rightarrow> bool" where
  "is_positive_integer str \<longleftrightarrow> str \<noteq> [] \<and> list_all isdigit str"

subsection \<open>\<open>std::stoi\<close> and the cast to \<open>uint16_t\<close>\<close>

definition isspace :: "char \<Rightarrow> bool" where
  "isspace c \<longleftrightarrow> (of_char c :: nat) = 32 \<or> (9 \<le> (of_char c :: nat) \<and> (of_char c :: nat) \<le> 13)"

definition signed_digits :: "string \<Rightarrow> int \<times> string" where
  "signed_digits s = (case dropWhile isspace s of
      [] \<Rightarrow> (1, [])
    | c # cs \<Rightarrow> if c = CHR ''-'' then (-1, takeWhile isdigit cs)
                else if c = CHR ''+'' then (1, takeWhile isdigit cs)
                else (1, takeWhile isdigit (c # cs)))"

text \<open>Base 10; \<open>int\<close> has 32 bits on every platform the library builds for.\<close>

definition stoi :: "string \<Rightarrow> exn + int" where
  "stoi s = (let (sgn, ds) = signed_digits s; v = sgn * int (decimal ds) in
     if ds = [] then Inl (Std Invalid_argument ''stoi'')
     else if v < - (2 ^ 31) \<or> 2 ^ 31 \<le> v then Inl (Std Out_of_range_error ''stoi'')
     else Inr v)"

text \<open>\<open>static_cast<uint16_t>(int)\<close> keeps the low 16 bits.\<close>

definition to_uint16 :: "int \<Rightarrow> 16 word" where
  "to_uint16 i = word_of_int i"

text \<open>The body of \<open>get_lcu_process_parameters\<close> after the command is known, the same text in both
  implementations.\<close>

definition lcu_parameters_of_command :: "string \<Rightarrow> exn + lcu_parameters" where
  "lcu_parameters_of_command lcu_command =
     (case extract_remoting_auth_token lcu_command of
        Inl x \<Rightarrow> Inl x
      | Inr token \<Rightarrow>
          (case extract_app_port lcu_command of
             Inl x \<Rightarrow> Inl x
           | Inr port \<Rightarrow>
               (case stoi port of
                  Inl x \<Rightarrow> Inl x
                | Inr n \<Rightarrow> Inr \<lparr>remoting_auth_token = token, app_port = to_uint16 n\<rparr>)))"

subsection \<open>The contract of an extraction\<close>

locale param_extractor =
  fixes extr :: "string \<Rightarrow> exn + string"
    and lbl :: string
    and cls :: "(char \<times> char) list"
  assumes found: "extr s = Inr t \<longleftrightarrow> first_param lbl cls s t"
    and not_found: "extr s = Inl x \<Longrightarrow> no_param lbl cls s \<and> (\<exists>m. x = Rito Lcu_parameters_exception m)"
    and label_nonempty: "lbl \<noteq> []"
begin

lemma fails_iff: "(\<exists>x. extr s = Inl x) \<longleftrightarrow> no_param lbl cls s"
proof
  assume "no_param lbl cls s"
  then have "\<not> first_param lbl cls s t" for t by (auto simp: no_param_def first_param_def)
  then show "\<exists>x. extr s = Inl x" using found by (cases "extr s") auto
qed (auto dest: not_found)

lemma extract_run: "extr s = Inr t \<Longrightarrow> t \<noteq> [] \<and> list_all (in_class cls) t"
  by (auto simp: found dest: first_param_run)

lemma extract_occurs: "extr s = Inr t \<Longrightarrow> sublist (lbl @ t) s"
  by (auto simp: found dest: first_param_sublist)

text \<open>The parameter is found behind any text that does not contain the label, the characters of
  the label itself (all but the last) included.\<close>

lemma extract_behind:
  assumes s: "s = pre @ lbl @ t @ c # post" and t: "t \<noteq> []" "list_all (in_class cls) t"
    and c: "\<not> in_class cls c" and clean: "\<not> contains_str lbl (pre @ butlast lbl)"
  shows "extr s = Inr t"
proof -
  have "\<not> param_here lbl cls q u" if pq: "s = p @ q" and len: "length p < length pre" for p q u
  proof
    assume "param_here lbl cls q u"
    then obtain rest where q: "q = lbl @ rest" by (auto simp: param_here_def)
    have "take (length p + length lbl) s = p @ lbl" using pq q by simp
    moreover have "prefix (take (length p + length lbl) s) (pre @ butlast lbl)"
    proof -
      have "length p + length lbl \<le> length (pre @ butlast lbl)" using len by simp
      moreover have "s = (pre @ butlast lbl) @ last lbl # t @ c # post"
        using s label_nonempty by simp
      ultimately show ?thesis by (metis append_eq_conv_conj linear nat_le_linear prefixI take_all_iff take_append take_is_prefix take_take min_absorb1)
    qed
    ultimately have "sublist lbl (pre @ butlast lbl)"
      by (metis prefix_imp_sublist sublist_append_leftI sublist_order.order_trans)
    with clean show False by (simp add: contains_str_iff)
  qed
  moreover have "param_here lbl cls (lbl @ t @ c # post) t"
    using t c by (auto simp: param_here_def)
  ultimately have "first_param lbl cls s t"
    unfolding first_param_def using s by blast
  then show ?thesis by (simp add: found)
qed

end

lemma sub_match_Some [simp]: "sub_match (Some t) = t"
  by (simp add: sub_match_def)

interpretation token: param_extractor extract_remoting_auth_token token_label token_class
proof
  fix s t x
  show "extract_remoting_auth_token s = Inr t \<longleftrightarrow> first_param token_label token_class s t"
    using regex_search_Some [of token_label token_class s]
    by (auto simp: extract_remoting_auth_token_def token_regex_def dest: first_param_unique split: option.split)
  assume "extract_remoting_auth_token s = Inl x"
  then show "no_param token_label token_class s \<and> (\<exists>m. x = Rito Lcu_parameters_exception m)"
    by (auto simp: extract_remoting_auth_token_def token_regex_def regex_search_None split: option.splits)
qed (simp add: token_label_def)

interpretation port: param_extractor extract_app_port port_label digit_class
proof
  fix s t x
  show "extract_app_port s = Inr t \<longleftrightarrow> first_param port_label digit_class s t"
    using regex_search_Some [of port_label digit_class s]
    by (auto simp: extract_app_port_def port_regex_def dest: first_param_unique split: option.split)
  assume "extract_app_port s = Inl x"
  then show "no_param port_label digit_class s \<and> (\<exists>m. x = Rito Lcu_parameters_exception m)"
    by (auto simp: extract_app_port_def port_regex_def regex_search_None split: option.splits)
qed (simp add: port_label_def)

subsection \<open>\<open>stoi\<close> on the text the port pattern captures\<close>

lemma in_digit_class [simp]: "in_class digit_class c = isdigit c"
  by (simp add: in_class_def digit_class_def in_range_def isdigit_def)

lemma isdigit_not: "isdigit c \<Longrightarrow> \<not> isspace c \<and> c \<noteq> CHR ''-'' \<and> c \<noteq> CHR ''+''"
  by (auto simp: isdigit_def isspace_def)

lemma stoi_digits:
  assumes "ds \<noteq> []" and "list_all isdigit ds"
  shows "stoi ds = (if decimal ds < 2 ^ 31 then Inr (int (decimal ds))
                    else Inl (Std Out_of_range_error ''stoi''))"
proof -
  obtain c cs where ds: "ds = c # cs" using assms(1) by (cases ds) auto
  have c: "isdigit c" using assms(2) ds by simp
  have "takeWhile isdigit ds = ds" using assms(2) by (simp add: takeWhile_eq_all_conv list_all_iff)
  then have "signed_digits ds = (1, ds)"
    using isdigit_not [OF c] by (simp add: signed_digits_def ds)
  then show ?thesis using assms(1) by (simp add: stoi_def)
qed

lemma stoi_to_string: "n < 2 ^ 31 \<Longrightarrow> stoi (to_string n) = Inr (int n)"
  by (simp add: stoi_digits to_string_digits decimal_to_string)

lemma port_is_digits: "extract_app_port s = Inr d \<Longrightarrow> d \<noteq> [] \<and> list_all isdigit d"
  using port.extract_run [of s d] by (simp add: list_all_iff)

lemma unat_to_uint16: "unat (to_uint16 (int n)) = n mod 65536"
  by (simp add: to_uint16_def unat_of_nat)

lemma lcu_parameters_of_command_cases:
  "lcu_parameters_of_command s =
     (case extract_remoting_auth_token s of
        Inl x \<Rightarrow> Inl x
      | Inr t \<Rightarrow> (case extract_app_port s of
          Inl x \<Rightarrow> Inl x
        | Inr d \<Rightarrow> if decimal d < 2 ^ 31
            then Inr \<lparr>remoting_auth_token = t, app_port = of_nat (decimal d)\<rparr>
            else Inl (Std Out_of_range_error ''stoi'')))"
  by (auto simp: lcu_parameters_of_command_def stoi_digits to_uint16_def
      dest: port_is_digits split: sum.splits)

text \<open>Rules that evaluate the extractions on a concrete command.\<close>

lemmas eval_extract = extract_remoting_auth_token_def extract_app_port_def token_regex_def
  port_regex_def param_pattern_def token_label_def port_label_def later_group_def

lemma in_token_class:
  "in_class token_class c \<longleftrightarrow> (97 \<le> (of_char c :: nat) \<and> (of_char c :: nat) \<le> 122) \<or>
     (65 \<le> (of_char c :: nat) \<and> (of_char c :: nat) \<le> 90) \<or> isdigit c \<or>
     (of_char c :: nat) = 45 \<or> (of_char c :: nat) = 95"
  by (auto simp: in_class_def token_class_def in_range_def isdigit_def)

subsection \<open>Properties\<close>

text \<open>C28. The remoting auth token is extracted exactly when the launch command holds
  \<open>--remoting-auth-token=\<close> followed by a non-empty run of letters, digits, \<open>-\<close> and \<open>_\<close> and by
  one more character that is none of these, and the result is the run of the leftmost such place;
  otherwise, and only then, the call throws \<open>Lcu_parameters_exception\<close>.\<close>

theorem extract_remoting_auth_token_spec:
  "(extract_remoting_auth_token s = Inr t \<longleftrightarrow> first_param token_label token_class s t) \<and>
   ((\<exists>m. extract_remoting_auth_token s = Inl (Rito Lcu_parameters_exception m))
      \<longleftrightarrow> no_param token_label token_class s)"
  by (metis token.found token.fails_iff token.not_found)

text \<open>The app port is extracted exactly when the launch command holds \<open>--app-port=\<close> followed by
  a non-empty run of digits and by one non-digit, and the result is the run of the leftmost such
  place; otherwise, and only then, the call throws \<open>Lcu_parameters_exception\<close>.\<close>

theorem extract_app_port_spec:
  "(extract_app_port s = Inr t \<longleftrightarrow> first_param port_label digit_class s t) \<and>
   ((\<exists>m. extract_app_port s = Inl (Rito Lcu_parameters_exception m))
      \<longleftrightarrow> no_param port_label digit_class s)"
  by (metis port.found port.fails_iff port.not_found)

text \<open>C7. Round trip: a command that passes a token \<open>t\<close> and a port \<open>n\<close> below 65536 as
  \<open>--remoting-auth-token=t\<close> and \<open>--app-port=n\<close>, each ended by a character outside its class and
  neither preceded by another copy of its label, in either order and with anything around them,
  is parsed to exactly \<open>t\<close> and \<open>n\<close>.\<close>

theorem lcu_parameters_round_trip:
  assumes "s = pre @ token_label @ t @ c # post"
    and "t \<noteq> []" and "list_all (in_class token_class) t" and "\<not> in_class token_class c"
    and "\<not> contains_str token_label (pre @ butlast token_label)"
    and "s = pre' @ port_label @ to_string n @ c' # post'"
    and "n < 65536" and "\<not> isdigit c'"
    and "\<not> contains_str port_label (pre' @ butlast port_label)"
  shows "\<exists>p. lcu_parameters_of_command s = Inr p \<and> remoting_auth_token p = t \<and> unat (app_port p) = n"
proof -
  have t: "extract_remoting_auth_token s = Inr t"
    using assms(1-5) by (rule token.extract_behind)
  have d: "extract_app_port s = Inr (to_string n)"
    using assms(6) to_string_nonempty _ _ assms(9)
  proof (rule port.extract_behind)
    show "list_all (in_class digit_class) (to_string n)"
      using to_string_digits [of n] by (simp add: list_all_iff)
  qed (simp add: assms(8))
  show ?thesis
    using assms(7) by (simp add: lcu_parameters_of_command_cases t d decimal_to_string unat_of_nat)
qed

theorem lcu_parameters_round_trip_witness:
  "\<exists>p. lcu_parameters_of_command ''Ux.exe --remoting-auth-token=My-Tok_1 --app-port=12345 --x'' = Inr p
     \<and> remoting_auth_token p = ''My-Tok_1'' \<and> unat (app_port p) = 12345"
proof (rule lcu_parameters_round_trip)
  show "''Ux.exe --remoting-auth-token=My-Tok_1 --app-port=12345 --x'' =
      ''Ux.exe '' @ token_label @ ''My-Tok_1'' @ CHR '' '' # ''--app-port=12345 --x''"
    by (simp add: token_label_def)
  show "''Ux.exe --remoting-auth-token=My-Tok_1 --app-port=12345 --x'' =
      ''Ux.exe --remoting-auth-token=My-Tok_1 '' @ port_label @ to_string 12345 @ CHR '' '' # ''--x''"
  proof -
    have "to_string 12345 = ''12345''" by (simp add: to_string.simps)
    then show ?thesis by (simp add: port_label_def)
  qed
qed (simp_all add: eval_extract in_token_class isdigit_def)

text \<open>C38. A port of 65536 or more is not rejected: it is reduced modulo 65536 (\<open>static_cast<uint16_t>\<close>)
  as long as it fits an \<open>int\<close>; from 2147483648 on, \<open>std::stoi\<close> throws \<open>std::out_of_range\<close>, which
  is no \<open>rito::Exception\<close>. The token plays no part in it.\<close>

theorem app_port_out_of_range:
  assumes "extract_remoting_auth_token s = Inr t" and "extract_app_port s = Inr d"
  shows "(decimal d < 2 ^ 31 \<longrightarrow> (\<exists>p. lcu_parameters_of_command s = Inr p \<and>
            unat (app_port p) = decimal d mod 65536)) \<and>
         (2 ^ 31 \<le> decimal d \<longrightarrow>
            lcu_parameters_of_command s = Inl (Std Out_of_range_error ''stoi''))"
  using assms by (simp add: lcu_parameters_of_command_cases unat_of_nat)

theorem app_port_out_of_range_witness:
  "\<exists>p. lcu_parameters_of_command ''--remoting-auth-token=a --app-port=65537 '' = Inr p \<and> unat (app_port p) = 1"
proof -
  have t: "extract_remoting_auth_token ''--remoting-auth-token=a --app-port=65537 '' = Inr ''a''"
    by (simp add: eval_extract in_token_class isdigit_def)
  have d: "extract_app_port ''--remoting-auth-token=a --app-port=65537 '' = Inr ''65537''"
    by (simp add: eval_extract isdigit_def)
  have "decimal ''65537'' = 65537" by (simp add: decimal_def digit_val_def)
  with app_port_out_of_range [OF t d] show ?thesis by simp
qed

text \<open>The outcome of parsing a command is one of four: the parameters (both present, the port at
  most \<open>INT_MAX\<close>), \<open>Lcu_parameters_exception\<close> (the token or the port is missing), or
  \<open>std::out_of_range\<close> (both present, the port beyond \<open>INT_MAX\<close>). \<open>std::invalid_argument\<close> never
  comes out of \<open>std::stoi\<close> here.\<close>

theorem lcu_parameters_outcome:
  "case lcu_parameters_of_command s of
     Inr p \<Rightarrow> first_param token_label token_class s (remoting_auth_token p) \<and>
              (\<exists>d. first_param port_label digit_class s d \<and> decimal d < 2 ^ 31 \<and>
                   app_port p = of_nat (decimal d))
   | Inl x \<Rightarrow> (\<exists>m. x = Rito Lcu_parameters_exception m) \<and>
                (no_param token_label token_class s \<or> no_param port_label digit_class s)
            \<or> x = Std Out_of_range_error ''stoi'' \<and>
                (\<exists>d. first_param port_label digit_class s d \<and> 2 ^ 31 \<le> decimal d)"
  by (auto simp: lcu_parameters_of_command_cases token.found port.found
      dest: token.not_found port.not_found split: sum.split)

end
