(* ===== verification/Lcu_Process_Linux.thy ===== *)
theory Lcu_Process_Linux
  imports Lcu_Params
begin

text \<open>
  \<open>src/platform/linux/lcu_process_handler_impl_linux.cpp\<close>, with the forwarding class of
  \<open>src/lcu_process_handler.cpp\<close>. The file system is data: what a \<open>std::filesystem::directory_iterator\<close>
  over a path yields, and what the files hold. The directory order is the file system's.
  The locale \<open>lcu_process_handler\<close> is the contract that the REST and the websocket handler rely on.
\<close>

subsection \<open>The file system\<close>

text \<open>The entries (their file names) in iteration order. Opening the directory or advancing the
  iterator may fail with \<open>std::filesystem::filesystem_error\<close>: \<open>Dir_error\<close>, with its \<open>what()\<close>.\<close>

datatype dir_listing = Dir_end | Dir_error string | Dir_entry string dir_listing

record proc_fs =
  directory :: "string \<Rightarrow> dir_listing"
  read_file :: "string \<Rightarrow> string option"

text \<open>\<open>path / name\<close>\<close>

definition path_append :: "string \<Rightarrow> string \<Rightarrow> string" where
  "path_append p f = (if p = [] \<or> last p = CHR ''/'' then p @ f else p @ CHR ''/'' # f)"

text \<open>\<open>path::stem()\<close> of a file name: without its last extension; a leading dot starts no extension.\<close>

definition stem :: "string \<Rightarrow> string" where
  "stem f = (if f = ''.'' \<or> f = ''..'' then f
     else case dropWhile (\<lambda>c. c \<noteq> CHR ''.'') (rev f) of
            [] \<Rightarrow> f
          | _ # b \<Rightarrow> if b = [] then f else rev b)"

text \<open>\<open>std::getline\<close> on a fresh \<open>std::ifstream\<close>: the first line, empty when the file does not open.\<close>

definition first_line :: "string option \<Rightarrow> string" where
  "first_line contents = (case contents of None \<Rightarrow> [] | Some s \<Rightarrow> takeWhile (\<lambda>c. c \<noteq> CHR 0x0A) s)"

definition lcu_executable :: string where
  "lcu_executable = ''LeagueClientUx.exe''"

subsection \<open>The handler\<close>

text \<open>The loop of \<open>get_lcu_process_command\<close>: \<open>Inl\<close> is a \<open>filesystem_error\<close> in flight, \<open>Inr None\<close> the
  end of the loop without a return.\<close>

fun scan_processes :: "proc_fs \<Rightarrow> string \<Rightarrow> dir_listing \<Rightarrow> exn + string option" where
  "scan_processes fs proc_dir Dir_end = Inr None"
| "scan_processes fs proc_dir (Dir_error m) = Inl (Std Filesystem_error m)"
| "scan_processes fs proc_dir (Dir_entry name rest) =
     (let proc_id = stem name in
      if \<not> is_positive_integer proc_id then scan_processes fs proc_dir rest
      else let command = first_line (read_file fs (path_append proc_dir name @ ''/cmdline'')) in
        if contains_str lcu_executable command then Inr (Some command)
        else scan_processes fs proc_dir rest)"

definition get_lcu_process_command :: "proc_fs \<Rightarrow> string \<Rightarrow> exn + string" where
  "get_lcu_process_command fs proc_dir =
     (case scan_processes fs proc_dir (directory fs proc_dir) of
        Inl (Std Filesystem_error _) \<Rightarrow>
          Inl (Rito Path_not_found_exception (''Unable to locate '' @ proc_dir @ '' folder''))
      | Inl x \<Rightarrow> Inl x
      | Inr (Some command) \<Rightarrow> Inr command
      | Inr None \<Rightarrow> Inl (Rito Lcu_not_running_exception ''Unable to find League Client process''))"

definition get_lcu_process_parameters :: "proc_fs \<Rightarrow> string \<Rightarrow> exn + lcu_parameters" where
  "get_lcu_process_parameters fs proc_dir =
     (case get_lcu_process_command fs proc_dir of
        Inl x \<Rightarrow> Inl x
      | Inr lcu_command \<Rightarrow> lcu_parameters_of_command lcu_command)"

text \<open>The handler as the other components call it: it reads the file system of the moment.\<close>

definition linux_handler :: "('e \<Rightarrow> proc_fs) \<Rightarrow> string \<Rightarrow> ('e, lcu_parameters) ext" where
  "linux_handler fs_of proc_dir = (\<lambda>e. (get_lcu_process_parameters (fs_of e) proc_dir, e))"

subsection \<open>The contract of a process handler\<close>

locale lcu_process_handler =
  fixes get_params :: "('e, lcu_parameters) ext"
  assumes token_valid:
      "get_params e = (Inr p, e') \<Longrightarrow>
         remoting_auth_token p \<noteq> [] \<and> list_all (in_class token_class) (remoting_auth_token p)"
    and errors: "get_params e = (Inl x, e') \<Longrightarrow> is_std_exception x"
begin

lemma lift_ok: "lift_ext get_params e = (Ok p, e') \<Longrightarrow> remoting_auth_token p \<noteq> []"
  using lift_ext_cases [of get_params e] token_valid by fastforce

lemma lift_throw: "lift_ext get_params e = (Throw x, e') \<Longrightarrow> is_std_exception x"
  using lift_ext_cases [of get_params e] errors by fastforce

end

lemma params_token:
  "lcu_parameters_of_command s = Inr p \<Longrightarrow>
     remoting_auth_token p \<noteq> [] \<and> list_all (in_class token_class) (remoting_auth_token p)"
  by (auto simp: lcu_parameters_of_command_cases dest: token.extract_run split: sum.splits if_splits)

lemma params_error: "lcu_parameters_of_command s = Inl x \<Longrightarrow> is_std_exception x"
  by (auto simp: lcu_parameters_of_command_cases
      dest!: token.not_found port.not_found split: sum.splits if_splits)

lemma scan_error: "scan_processes fs d l = Inl x \<Longrightarrow> \<exists>m. x = Std Filesystem_error m"
  by (induction fs d l rule: scan_processes.induct) (auto simp: Let_def split: if_splits)

lemma get_lcu_process_command_cases:
  "get_lcu_process_command fs d = (case scan_processes fs d (directory fs d) of
      Inl _ \<Rightarrow> Inl (Rito Path_not_found_exception (''Unable to locate '' @ d @ '' folder''))
    | Inr (Some c) \<Rightarrow> Inr c
    | Inr None \<Rightarrow> Inl (Rito Lcu_not_running_exception ''Unable to find League Client process''))"
  by (auto simp: get_lcu_process_command_def dest: scan_error split: sum.split)

lemma command_error:
  "get_lcu_process_command fs d = Inl x \<Longrightarrow>
     x = Rito Path_not_found_exception (''Unable to locate '' @ d @ '' folder'') \<or>
     x = Rito Lcu_not_running_exception ''Unable to find League Client process''"
  by (auto simp: get_lcu_process_command_cases split: sum.splits option.splits)

interpretation linux: lcu_process_handler "linux_handler fs_of proc_dir" for fs_of proc_dir
proof
  fix e e' :: 'a and p x
  assume "linux_handler fs_of proc_dir e = (Inr p, e')"
  then show "remoting_auth_token p \<noteq> [] \<and> list_all (in_class token_class) (remoting_auth_token p)"
    by (auto simp: linux_handler_def get_lcu_process_parameters_def dest: params_token split: sum.splits)
next
  fix e e' :: 'a and x
  assume "linux_handler fs_of proc_dir e = (Inl x, e')"
  then show "is_std_exception x"
    by (auto simp: linux_handler_def get_lcu_process_parameters_def
        dest: params_error command_error split: sum.splits)
qed

subsection \<open>What the scan finds\<close>

text \<open>Reference description: the names the iteration reaches, and the command of a name, if it is a
  League client process.\<close>

fun listed :: "dir_listing \<Rightarrow> string list" where
  "listed Dir_end = []"
| "listed (Dir_error _) = []"
| "listed (Dir_entry name rest) = name # listed rest"

fun listing_error :: "dir_listing \<Rightarrow> string option" where
  "listing_error Dir_end = None"
| "listing_error (Dir_error m) = Some m"
| "listing_error (Dir_entry _ rest) = listing_error rest"

definition process_lcu_command :: "proc_fs \<Rightarrow> string \<Rightarrow> string \<Rightarrow> string option" where
  "process_lcu_command fs proc_dir name =
     (let c = first_line (read_file fs (path_append proc_dir name @ ''/cmdline'')) in
      if is_positive_integer (stem name) \<and> contains_str lcu_executable c then Some c else None)"

lemma scan_Dir_entry:
  "scan_processes fs d (Dir_entry name rest) =
     (case process_lcu_command fs d name of Some c \<Rightarrow> Inr (Some c) | None \<Rightarrow> scan_processes fs d rest)"
  by (simp add: process_lcu_command_def Let_def)

lemma scan_processes_eq:
  "scan_processes fs d l =
     (case List.map_filter (process_lcu_command fs d) (listed l) of
        c # _ \<Rightarrow> Inr (Some c)
      | [] \<Rightarrow> (case listing_error l of
          Some m \<Rightarrow> Inl (Std Filesystem_error m) | None \<Rightarrow> Inr None))"
proof (induction l)
  case (Dir_entry name rest)
  then show ?case
    unfolding scan_Dir_entry by (simp add: map_filter_simps split: option.split)
qed (simp_all add: map_filter_simps)

text \<open>C27. \<open>get_lcu_process_command\<close> returns the first line of \<open>cmdline\<close> of the first process, in the
  directory's order, whose name is all digits and whose command line names \<open>LeagueClientUx.exe\<close>. If
  the iteration ends without one it throws \<open>Lcu_not_running_exception\<close>, and if the directory cannot
  be opened or read further before one is reached, \<open>Path_not_found_exception\<close>.\<close>

theorem get_lcu_process_command_spec:
  "get_lcu_process_command fs d =
     (case List.map_filter (process_lcu_command fs d) (listed (directory fs d)) of
        c # _ \<Rightarrow> Inr c
      | [] \<Rightarrow> Inl (case listing_error (directory fs d) of
          Some _ \<Rightarrow> Rito Path_not_found_exception (''Unable to locate '' @ d @ '' folder'')
        | None \<Rightarrow> Rito Lcu_not_running_exception ''Unable to find League Client process''))"
  by (simp add: get_lcu_process_command_cases scan_processes_eq split: list.split option.split)

text \<open>C39. An exception that leaves \<open>get_lcu_process_parameters\<close> on Linux is one of the three that
  \<open>lcu_process_handler.h\<close> documents, or \<open>std::out_of_range\<close>, which it does not document and which
  is no \<open>rito::Exception\<close>; the last needs a running client whose port is beyond \<open>INT_MAX\<close>.\<close>

theorem linux_exceptions:
  assumes "get_lcu_process_parameters fs d = Inl x"
  shows "(\<exists>m. x = Rito Lcu_not_running_exception m) \<or> (\<exists>m. x = Rito Lcu_parameters_exception m) \<or>
         (\<exists>m. x = Rito Path_not_found_exception m) \<or>
         (x = Std Out_of_range_error ''stoi'' \<and>
            (\<exists>cmd port. get_lcu_process_command fs d = Inr cmd \<and>
               first_param port_label digit_class cmd port \<and> 2 ^ 31 \<le> decimal port))"
proof (cases "get_lcu_process_command fs d")
  case (Inl y)
  with assms command_error [OF Inl] show ?thesis by (auto simp: get_lcu_process_parameters_def)
next
  case (Inr cmd)
  with assms have "lcu_parameters_of_command cmd = Inl x"
    by (simp add: get_lcu_process_parameters_def)
  with Inr show ?thesis
    by (auto simp: lcu_parameters_of_command_cases port.found
        dest!: token.not_found port.not_found split: sum.splits if_splits)
qed

theorem linux_exceptions_witness:
  "let fs = \<lparr>directory = (\<lambda>_. Dir_entry ''42'' Dir_end), read_file = (\<lambda>_. Some
       ''LeagueClientUx.exe --remoting-auth-token=a --app-port=2147483648 '')\<rparr> in
   get_lcu_process_parameters fs ''/proc'' = Inl (Std Out_of_range_error ''stoi'') \<and>
   (\<exists>cmd port. get_lcu_process_command fs ''/proc'' = Inr cmd \<and>
      first_param port_label digit_class cmd port \<and> 2 ^ 31 \<le> decimal port)"
proof -
  let ?cmd = "''LeagueClientUx.exe --remoting-auth-token=a --app-port=2147483648 ''"
  let ?fs = "\<lparr>directory = (\<lambda>_. Dir_entry ''42'' Dir_end), read_file = (\<lambda>_. Some ?cmd)\<rparr>"
  have c: "get_lcu_process_command ?fs ''/proc'' = Inr ?cmd"
    by (simp add: get_lcu_process_command_def stem_def is_positive_integer_def isdigit_def
        first_line_def lcu_executable_def)
  have "extract_remoting_auth_token ?cmd = Inr ''a''" "extract_app_port ?cmd = Inr ''2147483648''"
    by (simp_all add: eval_extract in_token_class isdigit_def)
  moreover have "decimal ''2147483648'' = 2147483648" by (simp add: decimal_def digit_val_def)
  ultimately have x: "get_lcu_process_parameters ?fs ''/proc'' = Inl (Std Out_of_range_error ''stoi'')"
    using c by (simp add: get_lcu_process_parameters_def lcu_parameters_of_command_cases)
  from linux_exceptions [OF x] x show ?thesis by simp
qed

end
