(* ===== verification/Lcu_Rest.thy ===== *)
theory Lcu_Rest
  imports Rest_Retry Lcu_Process_Linux
begin

text \<open>
  \<open>src/lcu_rest_handler.cpp\<close>: requests to the League client on this machine. The port and the
  password come from the process handler, a parameter here (\<open>get_params\<close>), which
  \<open>Lcu_Process_Linux\<close> and \<open>Lcu_Process_Windows\<close> implement.
\<close>

record 's lcu_handler =
  lcu_client :: "'s rest_client option"

definition lcu_rest_handler :: "'s lcu_handler" where
  "lcu_rest_handler = \<lparr>lcu_client = None\<rparr>"

definition local_host :: string where
  "local_host = ''127.0.0.1''"

definition lcu_send_request ::
  "('e, 's) poco_http \<Rightarrow> request_type \<Rightarrow> string \<Rightarrow> ('s lcu_handler \<times> 'e, http_response) cpp" where
  "lcu_send_request net type message = (\<lambda>(h, e).
     case lcu_client h of
       None \<Rightarrow> (Abort Null_dereference, (h, e))
     | Some c \<Rightarrow> on_env (request net c type message []) (h, e))"

definition lcu_attempt_reconnect ::
  "('e, 's) poco_http \<Rightarrow> ('e, lcu_parameters) ext \<Rightarrow> ('s lcu_handler \<times> 'e, unit) cpp" where
  "lcu_attempt_reconnect net get_params =
     andthen (on_env (lift_ext get_params)) (\<lambda>lcu_client_parameters.
     andthen (on_env (new_rest_client net local_host (app_port lcu_client_parameters))) (\<lambda>c.
     modify (\<lambda>(h, e). (h\<lparr>lcu_client := Some
       (set_credentials ''riot'' (remoting_auth_token lcu_client_parameters) c)\<rparr>, e))))"

text \<open>\<open>catch (...)\<close> catches everything, an object that is no \<open>std::exception\<close> included.\<close>

definition lcu_request ::
  "('e, 's) poco_http \<Rightarrow> ('e, lcu_parameters) ext \<Rightarrow> request_type \<Rightarrow> string \<Rightarrow>
     ('s lcu_handler \<times> 'e, http_response) cpp" where
  "lcu_request net get_params type message =
     andthen
       (\<lambda>(h, e). if lcu_client h \<noteq> None
          then try_catch
                 (andthen (lcu_send_request net type message) (\<lambda>r. ret (Some r)))
                 (\<lambda>x. andthen (modify (\<lambda>(h, e). (h\<lparr>lcu_client := None\<rparr>, e))) (\<lambda>_. ret None)) (h, e)
          else ret None (h, e))
       (\<lambda>returned. case returned of
          Some r \<Rightarrow> ret r
        | None \<Rightarrow> (\<lambda>(h, e). if lcu_client h = None
            then andthen (lcu_attempt_reconnect net get_params) (\<lambda>_. lcu_send_request net type message) (h, e)
            else throw (Rito Unknown_exception ''Unexpected error'') (h, e)))"

subsection \<open>The handler keeps the contract\<close>

lemma lcu_send_total:
  assumes "lcu_client h \<noteq> None"
  shows "\<exists>r e'. lcu_send_request net ty msg (h, e) = (r, (h, e')) \<and> \<not> is_abort r"
proof -
  from assms obtain c where c: "lcu_client h = Some c" by blast
  obtain r e' where r: "request net c ty msg [] e = (r, e')"
    by (cases "request net c ty msg [] e")
  then have "\<not> is_abort r" by (cases r) (auto dest: never_abortsD [OF never_aborts_request])
  with c r show ?thesis by (simp add: lcu_send_request_def on_env_apply)
qed

lemma lcu_reconnect_total:
  "\<exists>r h' e'. lcu_attempt_reconnect net get_params (h, e) = (r, (h', e')) \<and> \<not> is_abort r \<and>
     (is_ok r \<longrightarrow> lcu_client h' \<noteq> None) \<and> (\<not> is_ok r \<longrightarrow> h' = h)"
  by (auto simp: lcu_attempt_reconnect_def new_rest_client_def andthen_def on_env_def lift_ext_def
      split: prod.split sum.split)

interpretation lcu: reconnecting_handler "\<lambda>h. lcu_client h \<noteq> None" "\<lambda>h. h\<lparr>lcu_client := None\<rparr>"
  "\<lambda>_. True" "lcu_attempt_reconnect net get_params" "lcu_send_request net ty msg"
  "lcu_request net get_params ty msg"
  for net get_params ty msg
proof
  fix h e
  show "lcu_request net get_params ty msg (h, e) =
      andthen (lcu_attempt_reconnect net get_params) (\<lambda>_. lcu_send_request net ty msg) (h, e)"
    if "\<not> lcu_client h \<noteq> None"
    using that by (simp add: lcu_request_def andthen_def [of "\<lambda>(h, e). _ h e"])
  show "lcu_request net get_params ty msg (h, e) = (Ok r, s)"
    if "lcu_client h \<noteq> None" "lcu_send_request net ty msg (h, e) = (Ok r, s)" for r s
    using that by (simp add: lcu_request_def andthen_def try_catch_def)
  show "lcu_request net get_params ty msg (h, e) =
      andthen (lcu_attempt_reconnect net get_params) (\<lambda>_. lcu_send_request net ty msg)
        (h'\<lparr>lcu_client := None\<rparr>, e')"
    if "lcu_client h \<noteq> None" "lcu_send_request net ty msg (h, e) = (Throw x, (h', e'))" True
    for x h' e'
    using that by (simp add: lcu_request_def andthen_def try_catch_def)
  show "\<exists>r e'. lcu_send_request net ty msg (h, e) = (r, (h, e')) \<and> \<not> is_abort r"
    if "lcu_client h \<noteq> None"
    using that by (rule lcu_send_total)
  show "\<exists>r h' e'. lcu_attempt_reconnect net get_params (h, e) = (r, (h', e')) \<and> \<not> is_abort r \<and>
      (lcu_client h' \<noteq> None) = is_ok r" if "\<not> lcu_client h \<noteq> None"
    using lcu_reconnect_total [of net get_params h e] that by fastforce
qed simp_all

lemma lcu_send_log:
  "lcu_send_request (logged_http net) ty msg (h, el) = (r, (h', el')) \<Longrightarrow> log_sent el' \<le> Suc (log_sent el)"
  by (auto simp: lcu_send_request_def on_env_apply dest: request_log split: option.splits)

text \<open>The process handler of a logged run works on the environment proper.\<close>

definition on_fst :: "('e, 'a) ext \<Rightarrow> ('e \<times> 'l, 'a) ext" where
  "on_fst f = (\<lambda>(e, l). case f e of (r, e') \<Rightarrow> (r, (e', l)))"

lemma lcu_reconnect_log:
  assumes "lcu_attempt_reconnect (logged_http net) (on_fst get_params) (h, el) = (r, (h', el'))"
  shows "log_sent el' = log_sent el"
proof -
  obtain q d where p: "lift_ext (on_fst get_params) el = (q, d)" by (cases "lift_ext (on_fst get_params) el")
  then have d: "log_sent d = log_sent el"
    by (cases el) (auto simp: lift_ext_def on_fst_def log_sent_def split: prod.splits sum.splits)
  show ?thesis
  proof (cases q)
    case (Ok p)
    obtain t g where n: "new_rest_client (logged_http net) local_host (app_port p) d = (t, g)"
      by (cases "new_rest_client (logged_http net) local_host (app_port p) d")
    then have "log_sent g = log_sent d" by (rule new_rest_client_log)
    with assms \<open>lift_ext (on_fst get_params) el = (q, d)\<close> Ok n d show ?thesis
      by (cases t) (auto simp: lcu_attempt_reconnect_def andthen_def on_env_def)
  qed (use assms p d in \<open>auto simp: lcu_attempt_reconnect_def andthen_def on_env_def\<close>)
qed

interpretation lcu_log: counted_handler "\<lambda>h. lcu_client h \<noteq> None" "\<lambda>h. h\<lparr>lcu_client := None\<rparr>"
  "\<lambda>_. True" "lcu_attempt_reconnect (logged_http net) (on_fst get_params)"
  "lcu_send_request (logged_http net) ty msg" "lcu_request (logged_http net) (on_fst get_params) ty msg"
  log_sent
  for net get_params ty msg
  by unfold_locales (auto dest: lcu_send_log lcu_reconnect_log)

subsection \<open>Properties\<close>

lemma lcu_branches:
  "lcu_request net get_params ty msg (h, e) =
     (let retry = andthen (lcu_attempt_reconnect net get_params) (\<lambda>_. lcu_send_request net ty msg) in
      if lcu_client h = None then retry (h, e)
      else case lcu_send_request net ty msg (h, e) of
          (Throw x, (h', e')) \<Rightarrow> retry (h'\<lparr>lcu_client := None\<rparr>, e')
        | outcome \<Rightarrow> outcome)"
  using lcu.branches [of net get_params ty msg h e] unfolding if_True not_not .

subsection \<open>A request on the wire\<close>

definition lcu_over ::
  "('e, 's) poco_http \<Rightarrow> 's rest_client \<Rightarrow> request_type \<Rightarrow> string \<Rightarrow>
     ('s lcu_handler \<times> 'e \<times> 's http_event list, http_response) cpp" where
  "lcu_over net c ty msg = on_env (wire_request net c ty msg [])"

definition lcu_address :: "('e, lcu_parameters) ext \<Rightarrow> 's lcu_handler \<Rightarrow> ('e, string \<times> 16 word \<times> string \<times> string) ext" where
  "lcu_address get_params h = (\<lambda>e. case get_params e of
       (Inl x, e') \<Rightarrow> (Inl x, e')
     | (Inr p, e') \<Rightarrow> (Inr (''127.0.0.1'', app_port p, ''riot'', remoting_auth_token p), e'))"

definition lcu_afresh ::
  "('e, 's) poco_http \<Rightarrow> ('e, lcu_parameters) ext \<Rightarrow> request_type \<Rightarrow> string \<Rightarrow>
     ('s lcu_handler \<times> 'e \<times> 's http_event list, http_response) cpp" where
  "lcu_afresh net get_params = attempt_afresh net (\<lambda>c h. h\<lparr>lcu_client := c\<rparr>) (lcu_address get_params) (\<lambda>h. [])"

lemma lcu_send_over:
  "lcu_client h = Some c \<Longrightarrow> lcu_send_request (logged_http net) ty msg (h, el) = lcu_over net c ty msg (h, el)"
  by (simp add: lcu_send_request_def lcu_over_def request_on_wire)

lemma lcu_retry_afresh:
  "andthen (lcu_attempt_reconnect (logged_http net) (on_fst get_params)) (\<lambda>_. lcu_send_request (logged_http net) ty msg)
     (h\<lparr>lcu_client := None\<rparr>, (e, l)) = lcu_afresh net get_params ty msg (h, (e, l))"
proof -
  obtain p e1 where p: "get_params e = (p, e1)" by (metis prod.collapse)
  show ?thesis
  proof (cases p)
    case (Inr p)
    obtain q d where n: "new_session net ''127.0.0.1'' (app_port p) e1 = (q, d)" by (metis prod.collapse)
    with Inr \<open>get_params e = _\<close> show ?thesis
      by (cases q) (simp_all add: lcu_afresh_def attempt_afresh_def lcu_address_def lcu_attempt_reconnect_def
          andthen_def on_env_def on_fst_def new_rest_client_def lift_ext_def logged_http_def logging_def local_host_def
          set_credentials_def lcu_send_over [unfolded logged_http_def logging_def] lcu_over_def Let_def)
  qed (use p in \<open>simp add: lcu_afresh_def attempt_afresh_def lcu_address_def lcu_attempt_reconnect_def andthen_def
      on_env_def on_fst_def lift_ext_def\<close>)
qed

lemma lcu_on_wire:
  "lcu_request (logged_http net) (on_fst get_params) ty msg (h, (e, l)) =
     first_answer (\<lambda>x. True)
       ((case lcu_client h of None \<Rightarrow> [] | Some c \<Rightarrow> [lcu_over net c ty msg]) @ [lcu_afresh net get_params ty msg])
       (h, (e, l))"
proof (cases "lcu_client h")
  case None
  then have "h\<lparr>lcu_client := None\<rparr> = h" by simp
  with None lcu_retry_afresh [of net get_params ty msg h e l] show ?thesis by (simp add: lcu_branches)
next
  case (Some c)
  obtain r e' l' where "lcu_send_request (logged_http net) ty msg (h, (e, l)) = (r, (h, (e', l')))"
    using lcu_send_total [of h "logged_http net" ty msg "(e, l)"] Some by auto
  moreover from this lcu_send_over [OF Some, of net ty msg "(e, l)"] have
    "lcu_over net c ty msg (h, (e, l)) = (r, (h, (e', l')))" by simp
  ultimately show ?thesis
    using Some lcu_retry_afresh [of net get_params ty msg h e' l'] by (cases r) (simp_all add: lcu_branches Let_def)
qed

text \<open>C24. \<open>Lcu_rest_handler::request\<close>, down to what POCO is asked to do. The attempts, in turn: over the cached
  session if there is one, to its address and with its credentials; then over a new session to \<open>127.0.0.1\<close>, to the
  port that the process handler reports at that moment, with the user \<open>riot\<close> and the token reported with it, or what
  the process handler throws in its place. Each sends one message, with the method of the request type and the given
  path, and receives one response. The second is made after any exception of the first, whatever its type, and its
  outcome is the outcome. The message is sent at most twice, once without a cached session, and no null \<open>m_client\<close>
  is dereferenced.\<close>

theorem lcu_request_on_the_wire:
  "lcu_request (logged_http net) (on_fst get_params) ty msg (h, (e, l)) =
     first_answer (\<lambda>x. True)
       ((case lcu_client h of None \<Rightarrow> [] | Some c \<Rightarrow> [lcu_over net c ty msg]) @ [lcu_afresh net get_params ty msg])
       (h, (e, l)) \<and>
   \<not> is_abort (fst (lcu_request (logged_http net) (on_fst get_params) ty msg (h, (e, l)))) \<and>
   sends (snd (snd (snd (lcu_request (logged_http net) (on_fst get_params) ty msg (h, (e, l)))))) \<le>
     sends l + (if lcu_client h = None then 1 else 2)"
proof -
  obtain r h' e' l' where
    r: "lcu_request (logged_http net) (on_fst get_params) ty msg (h, (e, l)) = (r, (h', (e', l')))" "\<not> is_abort r"
    using lcu.total [of "logged_http net" "on_fst get_params" ty msg h "(e, l)"] by auto
  from lcu_log.at_most_two [OF r(1)] have "sends l' \<le> sends l + (if lcu_client h = None then 1 else 2)"
    by (cases "lcu_client h") (simp_all add: log_sent_def)
  with r lcu_on_wire [of net get_params ty msg h e l] show ?thesis by simp
qed

text \<open>A call of \<open>Lcu_rest_handler::request\<close> ends with a response or an exception, never with a
  null \<open>m_client\<close> dereferenced, and after a response the handler holds a client.\<close>

theorem lcu_request_total:
  "\<exists>r h' e'. lcu_request net get_params ty msg (h, e) = (r, (h', e')) \<and> \<not> is_abort r \<and>
     (is_ok r \<longrightarrow> lcu_client h' \<noteq> None)"
  by (rule lcu.total)

text \<open>A call of \<open>Lcu_rest_handler::request\<close> sends the HTTP request at most twice, and at most
  once when no client was connected before the call.\<close>

theorem lcu_request_at_most_two:
  assumes "lcu_request (logged_http net) (on_fst get_params) ty msg (h, el) = (r, (h', el'))"
  shows "log_sent el' \<le> log_sent el + (if lcu_client h \<noteq> None then 2 else 1)"
  using lcu_log.at_most_two [OF assms] by simp

text \<open>The first successful request goes to \<open>127.0.0.1\<close>, to the port the process handler
  reported, with the user name \<open>riot\<close> and the reported token as credentials. It relies on POCO's
  credentials being empty only when user name and password are.\<close>

theorem lcu_first_request:
  assumes "\<And>u p. cred_empty net u p \<longleftrightarrow> u = [] \<and> p = []" and "lcu_client h = None"
    and "lcu_request (logged_http net) (on_fst get_params) ty msg (h, (e, [])) = (Ok r, (h', (e', l)))"
  shows "\<exists>s m params e1. to_poco_request_type ty = Inr m \<and> get_params e = (Inr params, e1) \<and>
        l = [Opened ''127.0.0.1'' (app_port params),
             Sent s \<lparr>req_method = m, req_uri = msg, req_version = HTTP_1_1,
               req_calls = [SetHost ''127.0.0.1'' (app_port params), SetKeepAlive True,
                 Authenticate ''riot'' (remoting_auth_token params)]\<rparr>,
             Received s]"
  using assms
  by (auto simp: lcu_branches lcu_send_request_def lcu_attempt_reconnect_def on_env_def on_fst_def
      local_host_def set_credentials_def eval_http Let_def of_sum_def
      split: prod.splits sum.splits if_splits res.splits exn.splits poco_class.splits)

text \<open>What the process handler throws reaches the caller unchanged, no connection is opened and
  the handler stays without a client.\<close>

theorem lcu_parameters_error_escapes:
  assumes "lcu_client h = None" and "get_params e = (Inl x, e')"
  shows "lcu_request net get_params ty msg (h, e) = (Throw x, (h, e'))"
  using assms
  by (simp add: lcu_branches lcu_attempt_reconnect_def on_env_def lift_ext_def andthen_def Let_def)

definition demo_params :: "(nat, lcu_parameters) ext" where
  "demo_params = (\<lambda>n. (Inr \<lparr>remoting_auth_token = ''tok'', app_port = 12345\<rparr>, n))"

lemmas eval_lcu = lcu_send_request_def lcu_attempt_reconnect_def on_env_def on_fst_def
  local_host_def set_credentials_def demo_params_def lcu_rest_handler_def eval_http Let_def

text \<open>The cached session is dead; meanwhile the League client has come back with another port and another token.\<close>

definition reset_http :: "(nat, nat) poco_http" where
  "reset_http = answering_http\<lparr>session_send := \<lambda>s q n. (if s = 0 then Inl (Foreign 7) else Inr (), n)\<rparr>"

theorem lcu_request_on_the_wire_witness:
  "\<exists>h'. lcu_request (logged_http reset_http) (on_fst demo_params) Http_get ''/x''
       (\<lparr>lcu_client = Some \<lparr>rc_host = ''127.0.0.1'', rc_port = 999, rc_session = 0, rc_username = ''riot'',
           rc_password = ''old''\<rparr>\<rparr>, (1, [])) =
     (Ok \<lparr>status = 200, reason = ''OK'', response = ''{}''\<rparr>, (h', (2,
        let message = (\<lambda>port token. \<lparr>req_method = HTTP_GET, req_uri = ''/x'', req_version = HTTP_1_1,
             req_calls = [SetHost ''127.0.0.1'' port, SetKeepAlive True, Authenticate ''riot'' token]\<rparr>)
        in [Sent 0 (message 999 ''old''), Opened ''127.0.0.1'' 12345,
            Sent 1 (message 12345 ''tok''), Received 1])))"
  by (simp add: lcu_request_on_the_wire [THEN conjunct1] lcu_over_def lcu_afresh_def attempt_afresh_def lcu_address_def
      demo_params_def wire_request_def http_exchange_def on_env_def reset_http_def answering_http_def Let_def)

theorem lcu_request_at_most_two_witness:
  "\<exists>r h' el'. lcu_request (logged_http answering_http) (on_fst demo_params) Http_get ''/x''
       (lcu_rest_handler, (0, [])) = (r, (h', el')) \<and>
     log_sent el' = 1 \<and> log_sent el' \<le> log_sent (0 :: nat, [] :: nat http_event list) + 1"
proof -
  obtain r h' el' where r: "lcu_request (logged_http answering_http) (on_fst demo_params) Http_get ''/x''
      (lcu_rest_handler, (0, [])) = (r, (h', el'))"
    by (metis prod.collapse)
  from lcu_request_at_most_two [OF r] have "log_sent el' \<le> log_sent (0 :: nat, [] :: nat http_event list) + 1"
    by (simp add: lcu_rest_handler_def)
  moreover from r have "log_sent el' = 1"
    by (auto simp: lcu_branches eval_lcu log_sent_def)
  ultimately show ?thesis using r by blast
qed

theorem lcu_first_request_witness:
  "\<exists>r h' e' l. lcu_request (logged_http answering_http) (on_fst demo_params) Http_get ''/x''
       (lcu_rest_handler, (0, [])) = (Ok r, (h', (e', l))) \<and>
     (\<exists>s. l = [Opened ''127.0.0.1'' 12345,
        Sent s \<lparr>req_method = HTTP_GET, req_uri = ''/x'', req_version = HTTP_1_1,
          req_calls = [SetHost ''127.0.0.1'' 12345, SetKeepAlive True, Authenticate ''riot'' ''tok'']\<rparr>,
        Received s])"
proof -
  obtain r h' e' l where r: "lcu_request (logged_http answering_http) (on_fst demo_params) Http_get ''/x''
      (lcu_rest_handler, (0, [])) = (Ok r, (h', (e', l)))"
    by (simp add: lcu_branches eval_lcu)
  have "cred_empty answering_http u p \<longleftrightarrow> u = [] \<and> p = []" for u p by (simp add: answering_http_def)
  moreover have "lcu_client lcu_rest_handler = None" by (simp add: lcu_rest_handler_def)
  ultimately show ?thesis
    using lcu_first_request [OF _ _ r] r by (auto simp: demo_params_def)
qed

theorem lcu_parameters_error_escapes_witness:
  "lcu_request answering_http (linux_handler (\<lambda>_. \<lparr>directory = (\<lambda>_. Dir_end), read_file = (\<lambda>_. None)\<rparr>) ''/proc'')
     Http_get ''/x'' (lcu_rest_handler, 0) =
   (Throw (Rito Lcu_not_running_exception ''Unable to find League Client process''), (lcu_rest_handler, 0))"
  by (rule lcu_parameters_error_escapes)
     (simp_all add: lcu_rest_handler_def linux_handler_def get_lcu_process_parameters_def
        get_lcu_process_command_def)

end
