(* ===== verification/Rest_Traffic.thy ===== *)
theory Rest_Traffic
  imports Riot_Rest Lcu_Rest
begin

text \<open>
  Where the secrets go: all that a \<open>Riot_rest_handler\<close> and a \<open>Lcu_rest_handler\<close> ever send, over any
  sequence of calls, failed and repeated requests included. The log of \<open>Https_Rest\<close> records it.
\<close>

subsection \<open>Sessions and their addresses\<close>

text \<open>A POCO session talks to the address it was made for (\<open>getHost\<close> and \<open>getPort\<close>).\<close>

definition remembers_address :: "('e, 's) poco_http \<Rightarrow> ('s \<Rightarrow> string \<times> 16 word) \<Rightarrow> bool" where
  "remembers_address net addr \<longleftrightarrow> (\<forall>h p e s e'. new_session net h p e = (Inr s, e') \<longrightarrow> addr s = (h, p))"

lemma logged_new_session:
  assumes "remembers_address net addr" and "new_rest_client (logged_http net) h p (e, l) = (r, (e', l'))"
  shows "l' = l @ [Opened h p] \<and> \<not> is_abort r \<and> (\<forall>c. r = Ok c \<longrightarrow> addr (rc_session c) = (h, p) \<and> rc_host c = h \<and> rc_port c = p \<and>
     rc_username c = [] \<and> rc_password c = [])"
proof -
  obtain q d where n: "new_session net h p e = (q, d)" by (metis prod.collapse)
  with assms(1) have "addr s = (h, p)" if "q = Inr s" for s using that unfolding remembers_address_def by blast
  with assms(2) n show ?thesis
    by (cases q) (auto simp: new_rest_client_def andthen_def lift_ext_def logged_http_def logging_def)
qed

subsection \<open>The Riot API key\<close>

text \<open>The hosts of the Riot API; \<open>home\<close> is the hosts that traffic is compared with.\<close>

definition api_host :: "string \<Rightarrow> bool" where
  "api_host h \<longleftrightarrow> (\<exists>p. h = p @ ''.api.riotgames.com'')"

fun riot_traffic :: "(string \<Rightarrow> bool) \<Rightarrow> string \<Rightarrow> ('s \<Rightarrow> string \<times> 16 word) \<Rightarrow> 's http_event \<Rightarrow> bool" where
  "riot_traffic home key addr (Opened h p) \<longleftrightarrow> home h \<and> p = 443"
| "riot_traffic home key addr (Sent s q) \<longleftrightarrow> (\<exists>h. addr s = (h, 443) \<and> home h \<and>
     req_calls q = [SetHost h 443, SetKeepAlive True, SetHeader ''X-Riot-Token'' key])"
| "riot_traffic home key addr (http_event.Received s) \<longleftrightarrow> (\<exists>h. addr s = (h, 443) \<and> home h)"

lemma named_region_host: "rg \<in> set named_regions \<Longrightarrow> api_host (get_host_by_region rg)"
  by (auto simp: named_regions_def api_host_def)

text \<open>The cached client is one for such a host, without credentials of its own, and so will the next one be.\<close>

fun riot_kept :: "(string \<Rightarrow> bool) \<Rightarrow> string \<Rightarrow> ('s \<Rightarrow> string \<times> 16 word) \<Rightarrow> 's riot_handler \<times> 'e \<times> 's http_event list \<Rightarrow> bool" where
  "riot_kept home key addr (h, (e, l)) \<longleftrightarrow> m_api_key h = key \<and> list_all (riot_traffic home key addr) l \<and>
     (m_region h \<noteq> Region_none \<longrightarrow> home (get_host_by_region (m_region h))) \<and>
     (\<forall>c. m_client h = Some c \<longrightarrow> addr (rc_session c) = (rc_host c, rc_port c) \<and> home (rc_host c) \<and>
        rc_port c = 443 \<and> rc_username c = [] \<and> rc_password c = [])"

lemma riot_send_kept:
  assumes "cred_empty net [] []" and "riot_kept home key addr (h, (e, l))" and "m_client h \<noteq> None"
  shows "riot_kept home key addr (snd (riot_send_request (logged_http net) ty msg (h, (e, l))))"
proof -
  from assms(3) obtain c where c: "m_client h = Some c" by blast
  let ?hs = "[(''X-Riot-Token'', m_api_key h)]"
  obtain r e' l' where r: "request (logged_http net) c ty msg ?hs (e, l) = (r, (e', l'))" by (metis prod.collapse)
  from request_events [OF r] obtain evs where l': "l' = l @ evs"
    "list_all (\<lambda>ev. ev = http_event.Received (rc_session c) \<or>
       (\<exists>m. ev = Sent (rc_session c) (build_request net c m msg ?hs))) evs" by blast
  have "list_all (riot_traffic home key addr) evs"
    using l'(2) assms(1,2) c by (fastforce simp: list_all_iff build_request_def)
  with assms(2) c r l'(1) show ?thesis by (simp add: riot_send_request_def on_env_def)
qed

lemma riot_reconnect_kept:
  assumes "remembers_address net addr" and "riot_kept home key addr (h, (e, l))"
  shows "riot_kept home key addr (snd (riot_attempt_reconnect (logged_http net) (h, (e, l))))"
proof (cases "m_region h = Region_none")
  case False
  with assms(2) have host: "home (get_host_by_region (m_region h))" by simp
  obtain r e' l' where n: "new_rest_client (logged_http net) (get_host_by_region (m_region h)) https_port (e, l) = (r, (e', l'))"
    by (metis prod.collapse)
  from logged_new_session [OF assms(1) n] n False host assms(2) show ?thesis
    by (cases r) (auto simp: riot_attempt_reconnect_def andthen_def on_env_def https_port_def)
qed (use assms(2) in \<open>simp add: riot_attempt_reconnect_def\<close>)

lemma riot_request_kept:
  assumes "remembers_address net addr" and "cred_empty net [] []" and "riot_kept home key addr (h, el)"
  shows "riot_kept home key addr (snd (riot_request (logged_http net) ty msg (h, el)))"
proof (rule riot.request_keeps [where P = "riot_kept home key addr"])
  show "riot_kept home key addr (h, el)" by (rule assms(3))
  show "riot_kept home key addr (snd (riot_send_request (logged_http net) ty msg (h, el)))"
    if "riot_kept home key addr (h, el)" "m_client h \<noteq> None" for h el
    using riot_send_kept [OF assms(2), of home key addr h "fst el" "snd el"] that by simp
  show "riot_kept home key addr (snd (riot_attempt_reconnect (logged_http net) (h, el)))"
    if "riot_kept home key addr (h, el)" for h el
    using riot_reconnect_kept [OF assms(1), of home key h "fst el" "snd el"] that by simp
  show "riot_kept home key addr (h\<lparr>m_client := None\<rparr>, el)" if "riot_kept home key addr (h, el)" for h el
    using that by (cases el) simp
qed

text \<open>Calls on a handler.\<close>

datatype riot_call = Riot_request request_type string | Riot_set_region region

fun riot_perform :: "('e, 's) poco_http \<Rightarrow> riot_call \<Rightarrow> 's riot_handler \<times> 'e \<Rightarrow> 's riot_handler \<times> 'e" where
  "riot_perform net (Riot_request ty msg) s = snd (riot_request net ty msg s)"
| "riot_perform net (Riot_set_region rg) (h, e) = (set_region rg h, e)"

fun region_fits :: "(string \<Rightarrow> bool) \<Rightarrow> riot_call \<Rightarrow> bool" where
  "region_fits home (Riot_set_region rg) \<longleftrightarrow> rg \<noteq> Region_none \<longrightarrow> home (get_host_by_region rg)"
| "region_fits home (Riot_request ty msg) \<longleftrightarrow> True"

lemma riot_perform_kept:
  assumes "remembers_address net addr" and "cred_empty net [] []" and "riot_kept home key addr s" and "region_fits home q"
  shows "riot_kept home key addr (riot_perform (logged_http net) q s)"
proof -
  obtain h e l where s: "s = (h, (e, l))" by (metis prod.collapse)
  show ?thesis
    using assms(3,4) riot_request_kept [OF assms(1,2), of home key h "(e, l)"]
    by (cases q) (simp_all add: s set_region_def del: split_paired_All)
qed

lemma riot_performs_kept:
  assumes "remembers_address net addr" and "cred_empty net [] []" and "riot_kept home key addr s"
    and "list_all (region_fits home) qs"
  shows "riot_kept home key addr (fold (riot_perform (logged_http net)) qs s)"
  using assms(3,4) by (induction qs arbitrary: s) (simp_all add: riot_perform_kept [OF assms(1,2)])

lemma riot_traffic_home:
  assumes "remembers_address net addr" and "cred_empty net [] []" and "list_all (region_fits home) calls"
    and "fold (riot_perform (logged_http net)) calls (riot_rest_handler key, (e, [])) = (h, (e', l))"
  shows "list_all (riot_traffic home key addr) l"
proof -
  have "riot_kept home key addr (riot_rest_handler key, (e, []))" by (simp add: riot_rest_handler_def)
  from riot_performs_kept [OF assms(1,2) this assms(3)] assms(4) show ?thesis by simp
qed

subsection \<open>The League client's token\<close>

text \<open>What the process handler reports, at some moment.\<close>

definition reported :: "('e, lcu_parameters) ext \<Rightarrow> lcu_parameters \<Rightarrow> bool" where
  "reported get_params p \<longleftrightarrow> (\<exists>e e'. get_params e = (Inr p, e'))"

fun lcu_traffic ::
  "('e, lcu_parameters) ext \<Rightarrow> ('s \<Rightarrow> string \<times> 16 word) \<Rightarrow> 's http_event \<Rightarrow> bool" where
  "lcu_traffic get_params addr (Opened h p) \<longleftrightarrow> h = ''127.0.0.1'' \<and> (\<exists>q. reported get_params q \<and> p = app_port q)"
| "lcu_traffic get_params addr (Sent s r) \<longleftrightarrow> (\<exists>q. reported get_params q \<and> addr s = (''127.0.0.1'', app_port q) \<and>
     req_calls r = [SetHost ''127.0.0.1'' (app_port q), SetKeepAlive True, Authenticate ''riot'' (remoting_auth_token q)])"
| "lcu_traffic get_params addr (http_event.Received s) \<longleftrightarrow> fst (addr s) = ''127.0.0.1''"

fun lcu_kept ::
  "('e, lcu_parameters) ext \<Rightarrow> ('s \<Rightarrow> string \<times> 16 word) \<Rightarrow> 's lcu_handler \<times> 'e \<times> 's http_event list \<Rightarrow> bool" where
  "lcu_kept get_params addr (h, (e, l)) \<longleftrightarrow> list_all (lcu_traffic get_params addr) l \<and>
     (\<forall>c. lcu_client h = Some c \<longrightarrow> (\<exists>q. reported get_params q \<and> addr (rc_session c) = (''127.0.0.1'', app_port q) \<and>
        rc_host c = ''127.0.0.1'' \<and> rc_port c = app_port q \<and> rc_username c = ''riot'' \<and>
        rc_password c = remoting_auth_token q))"

lemma lcu_send_kept:
  assumes "\<And>u p. cred_empty net u p \<longleftrightarrow> u = [] \<and> p = []" and "lcu_kept get_params addr (h, (e, l))"
    and "lcu_client h \<noteq> None"
  shows "lcu_kept get_params addr (snd (lcu_send_request (logged_http net) ty msg (h, (e, l))))"
proof -
  from assms(3) obtain c where c: "lcu_client h = Some c" by blast
  obtain r e' l' where r: "request (logged_http net) c ty msg [] (e, l) = (r, (e', l'))" by (metis prod.collapse)
  from request_events [OF r] obtain evs where l': "l' = l @ evs"
    "list_all (\<lambda>ev. ev = http_event.Received (rc_session c) \<or>
       (\<exists>m. ev = Sent (rc_session c) (build_request net c m msg []))) evs" by blast
  from assms(2) c obtain q where "reported get_params q" "addr (rc_session c) = (''127.0.0.1'', app_port q)"
    "rc_host c = ''127.0.0.1''" "rc_port c = app_port q" "rc_username c = ''riot''"
    "rc_password c = remoting_auth_token q" by auto
  with l'(2) assms(1) have "list_all (lcu_traffic get_params addr) evs"
    by (fastforce simp: list_all_iff build_request_def)
  with assms(2) c r l'(1) show ?thesis by (simp add: lcu_send_request_def on_env_def)
qed

lemma lcu_reconnect_kept:
  assumes "remembers_address net addr" and "lcu_kept get_params addr (h, (e, l))"
  shows "lcu_kept get_params addr (snd (lcu_attempt_reconnect (logged_http net) (on_fst get_params) (h, (e, l))))"
proof -
  obtain q d where p: "get_params e = (q, d)" by (metis prod.collapse)
  show ?thesis
  proof (cases q)
    case (Inr q)
    with p have rep: "reported get_params q" by (auto simp: reported_def)
    obtain r e' l' where n: "new_rest_client (logged_http net) ''127.0.0.1'' (app_port q) (d, l) = (r, (e', l'))"
      by (metis prod.collapse)
    from logged_new_session [OF assms(1) n] n p Inr rep assms(2) show ?thesis
      by (cases r) (auto simp: lcu_attempt_reconnect_def andthen_def on_env_def lift_ext_def on_fst_def
          local_host_def set_credentials_def)
  qed (use assms(2) p in \<open>simp add: lcu_attempt_reconnect_def andthen_def on_env_def lift_ext_def on_fst_def\<close>)
qed

lemma lcu_request_kept:
  assumes "remembers_address net addr" and "\<And>u p. cred_empty net u p \<longleftrightarrow> u = [] \<and> p = []"
    and "lcu_kept get_params addr (h, el)"
  shows "lcu_kept get_params addr (snd (lcu_request (logged_http net) (on_fst get_params) ty msg (h, el)))"
proof (rule lcu.request_keeps [where P = "lcu_kept get_params addr"])
  show "lcu_kept get_params addr (h, el)" by (rule assms(3))
  show "lcu_kept get_params addr (snd (lcu_send_request (logged_http net) ty msg (h, el)))"
    if "lcu_kept get_params addr (h, el)" "lcu_client h \<noteq> None" for h el
    using lcu_send_kept [OF assms(2), of get_params addr h "fst el" "snd el"] that by simp
  show "lcu_kept get_params addr (snd (lcu_attempt_reconnect (logged_http net) (on_fst get_params) (h, el)))"
    if "lcu_kept get_params addr (h, el)" for h el
    using lcu_reconnect_kept [OF assms(1), of get_params h "fst el" "snd el"] that by simp
  show "lcu_kept get_params addr (h\<lparr>lcu_client := None\<rparr>, el)" if "lcu_kept get_params addr (h, el)" for h el
    using that by (cases el) simp
qed

text \<open>Requests one after the other.\<close>

definition lcu_requests ::
  "('e, 's) poco_http \<Rightarrow> ('e, lcu_parameters) ext \<Rightarrow> (request_type \<times> string) list \<Rightarrow>
     's lcu_handler \<times> 'e \<Rightarrow> 's lcu_handler \<times> 'e" where
  "lcu_requests net get_params = fold (\<lambda>(ty, msg) s. snd (lcu_request net get_params ty msg s))"

lemma lcu_requests_kept:
  assumes "remembers_address net addr" and "\<And>u p. cred_empty net u p \<longleftrightarrow> u = [] \<and> p = []"
    and "lcu_kept get_params addr s"
  shows "lcu_kept get_params addr (lcu_requests (logged_http net) (on_fst get_params) qs s)"
  using assms(3)
proof (induction qs arbitrary: s)
  case (Cons q qs)
  from lcu_request_kept [OF assms(1,2), of get_params "fst s" "snd s" "fst q" "snd q"] Cons show ?case
    by (simp add: lcu_requests_def split_beta)
qed (simp add: lcu_requests_def)

subsection \<open>Properties\<close>

text \<open>C25. Where the API key goes: whatever a program requests over a \<open>Riot_rest_handler\<close>, with any changes of the
  region in between and however the requests end, every session is opened to port 443 of the host of a region that
  the program has selected, and every message is sent over a session to such a host, names that host, and carries the
  handler's key as its only credential. If it selects no value without a name, these are hosts in
  \<open>api.riotgames.com\<close>. (A value without a name has the empty host.)\<close>

theorem riot_key_stays_home:
  assumes "remembers_address net addr" and "cred_empty net [] []"
    and "fold (riot_perform (logged_http net)) calls (riot_rest_handler key, (e, [])) = (h, (e', l))"
  shows "list_all (riot_traffic
       (\<lambda>host. \<exists>rg. Riot_set_region rg \<in> set calls \<and> rg \<noteq> Region_none \<and> host = get_host_by_region rg) key addr) l \<and>
     ((\<forall>n. Riot_set_region (Unnamed_region n) \<notin> set calls) \<longrightarrow> list_all (riot_traffic api_host key addr) l)"
proof
  let ?home = "\<lambda>host. \<exists>rg. Riot_set_region rg \<in> set calls \<and> rg \<noteq> Region_none \<and> host = get_host_by_region rg"
  have "region_fits ?home q" if "q \<in> set calls" for q
  proof (cases q)
    case (Riot_set_region rg)
    with that show ?thesis by auto
  qed simp
  then have "list_all (region_fits ?home) calls" by (simp add: list_all_iff)
  from riot_traffic_home [OF assms(1,2) this assms(3)] show "list_all (riot_traffic ?home key addr) l" .
next
  show "(\<forall>n. Riot_set_region (Unnamed_region n) \<notin> set calls) \<longrightarrow> list_all (riot_traffic api_host key addr) l"
  proof
    assume named: "\<forall>n. Riot_set_region (Unnamed_region n) \<notin> set calls"
    have "region_fits api_host q" if "q \<in> set calls" for q
    proof (cases q)
      case (Riot_set_region rg)
      with that named have "rg \<noteq> Region_none \<longrightarrow> rg \<in> set named_regions" by (auto simp: named_region)
      with Riot_set_region named_region_host show ?thesis by simp
    qed simp
    then have "list_all (region_fits api_host) calls" by (simp add: list_all_iff)
    from riot_traffic_home [OF assms(1,2) this assms(3)] show "list_all (riot_traffic api_host key addr) l" .
  qed
qed

text \<open>In the witnesses a session is its address, and the second message that is sent is lost with the connection.\<close>

definition addressed_http :: "(nat, string \<times> 16 word) poco_http" where
  "addressed_http =
     \<lparr>new_session = (\<lambda>h p n. (Inr (h, p), n)),
      cred_empty = (\<lambda>u p. u = [] \<and> p = []),
      session_send = (\<lambda>s q n. (if n = 1 then Inl (Poco Other_poco_exception ''reset'') else Inr (), Suc n)),
      session_receive = (\<lambda>s n. (Inr (200, ''OK''), n)),
      session_body = (\<lambda>s n. (Inr ''{}'', n))\<rparr>"

lemma addressed_http_facts: "remembers_address addressed_http id" "cred_empty addressed_http u p \<longleftrightarrow> u = [] \<and> p = []"
  by (simp_all add: remembers_address_def addressed_http_def)

theorem riot_key_stays_home_witness:
  "\<exists>h e' l. fold (riot_perform (logged_http addressed_http))
       [Riot_set_region Euw, Riot_request Http_get ''/a'', Riot_set_region Kr, Riot_request Http_get ''/b'']
       (riot_rest_handler ''key'', (0, [])) = (h, (e', l)) \<and> sends l = 3 \<and>
     list_all (riot_traffic api_host ''key'' id) l"
proof -
  let ?run = "fold (riot_perform (logged_http addressed_http))
    [Riot_set_region Euw, Riot_request Http_get ''/a'', Riot_set_region Kr, Riot_request Http_get ''/b'']
    (riot_rest_handler ''key'', (0, []))"
  obtain h e' l where r: "?run = (h, (e', l))" by (metis prod.collapse)
  moreover have "cred_empty addressed_http [] []" by (simp add: addressed_http_facts)
  from riot_key_stays_home [OF addressed_http_facts(1) this r] have "list_all (riot_traffic api_host ''key'' id) l" by simp
  moreover have "sends (snd (snd ?run)) = 3"
    by (simp add: riot_branches riot_send_request_def riot_attempt_reconnect_def on_env_def set_region_def
        riot_rest_handler_def addressed_http_def eval_http Let_def)
  with r have "sends l = 3" by simp
  ultimately show ?thesis by blast
qed

text \<open>A value of \<open>Region\<close> without a name is not refused: the key is sent over a session to the empty host.\<close>

theorem unnamed_region_opens_empty_host:
  "\<exists>h e' l q. fold (riot_perform (logged_http addressed_http)) [Riot_set_region (Unnamed_region 99), Riot_request Http_get ''/a'']
       (riot_rest_handler ''key'', (0, [])) = (h, (e', l)) \<and> Opened [] 443 \<in> set l \<and> Sent ([], 443) q \<in> set l \<and>
     SetHeader ''X-Riot-Token'' ''key'' \<in> set (req_calls q)"
  by (simp add: riot_branches riot_send_request_def riot_attempt_reconnect_def on_env_def set_region_def
      riot_rest_handler_def addressed_http_def eval_http Let_def https_port_def)

text \<open>C26. The token stays on this machine: whatever a program requests over a \<open>Lcu_rest_handler\<close>, every session is
  opened to \<open>127.0.0.1\<close> and every message is sent over a session to \<open>127.0.0.1\<close> and to a port that the process
  handler reported, with the token that it reported beside that port.\<close>

theorem lcu_token_stays_local:
  assumes "remembers_address net addr" and "\<And>u p. cred_empty net u p \<longleftrightarrow> u = [] \<and> p = []"
    and "lcu_requests (logged_http net) (on_fst get_params) calls (lcu_rest_handler, (e, [])) = (h, (e', l))"
  shows "list_all (lcu_traffic get_params addr) l"
proof -
  have "lcu_kept get_params addr (lcu_rest_handler, (e, []))" by (simp add: lcu_rest_handler_def)
  from lcu_requests_kept [OF assms(1,2) this, of calls] assms(3) show ?thesis by simp
qed

theorem lcu_token_stays_local_witness:
  "\<exists>h e' l. lcu_requests (logged_http addressed_http) (on_fst demo_params) [(Http_get, ''/a''), (Http_get, ''/b'')]
       (lcu_rest_handler, (0, [])) = (h, (e', l)) \<and> sends l = 3 \<and> list_all (lcu_traffic demo_params id) l"
proof -
  let ?run = "lcu_requests (logged_http addressed_http) (on_fst demo_params) [(Http_get, ''/a''), (Http_get, ''/b'')]
    (lcu_rest_handler, (0, []))"
  obtain h e' l where r: "?run = (h, (e', l))" by (metis prod.collapse)
  moreover note lcu_token_stays_local [OF addressed_http_facts r]
  moreover have "sends (snd (snd ?run)) = 3"
    by (simp add: lcu_requests_def lcu_branches addressed_http_def eval_lcu)
  with r have "sends l = 3" by simp
  ultimately show ?thesis by blast
qed

end
