(* ===== verification/Lcu_Process_Windows.thy ===== *)
theory Lcu_Process_Windows
  imports Lcu_Params "HOL-Library.Multiset"
begin

text \<open>
  \<open>src/platform/windows/lcu_process_handler_impl_windows.cpp\<close>: the League client is looked for among
  the running processes, and its command line in its memory. The Windows API is a parameter; the
  state is the object's two pointers and the system (\<open>'e\<close>). Memory is read at two places: in the
  other process (\<open>ReadProcessMemory\<close>) and in this one, where a pointer of the other process means
  something else or nothing.
\<close>

subsection \<open>The Windows API\<close>

text \<open>
  Handles \<open>'h\<close> (never null), module handles \<open>'m\<close>, function pointers \<open>'f\<close>. \<open>None\<close> is the null result
  or \<open>FALSE\<close>. \<open>enum_processes\<close> gets the capacity of the buffer and gives the identifiers it wrote
  and the bytes it reports. \<open>query_peb\<close> is the second word of \<open>process_info\<close> after the call of
  \<open>NtQueryInformationProcess\<close>, and the \<open>read_\<close> functions are what the local buffer holds after
  \<open>ReadProcessMemory\<close>, both whether or not the call succeeded: the code does not look at the status.
  \<open>own_memory\<close> is the zero-terminated wide text at an address of this process, \<open>None\<close> where there is
  none that can be read. \<open>to_utf8\<close> is \<open>UnicodeConverter::convert\<close>.
\<close>

record ('e, 'h, 'm, 'f) win_api =
  enum_processes :: "nat \<Rightarrow> 'e \<Rightarrow> (32 word list \<times> 32 word) option \<times> 'e"
  open_process :: "32 word \<Rightarrow> 'e \<Rightarrow> 'h option \<times> 'e"
  close_handle :: "'h option \<Rightarrow> 'e \<Rightarrow> bool \<times> 'e"
  enum_process_modules :: "'h \<Rightarrow> 'e \<Rightarrow> 'm option \<times> 'e"
  get_module_base_name :: "'h \<Rightarrow> 'm \<Rightarrow> 'e \<Rightarrow> 16 word list \<times> 'e"
  load_library :: "string \<Rightarrow> 'e \<Rightarrow> 'm option \<times> 'e"
  get_proc_address :: "'m option \<Rightarrow> string \<Rightarrow> 'e \<Rightarrow> 'f option \<times> 'e"
  free_library :: "'m \<Rightarrow> 'e \<Rightarrow> bool \<times> 'e"
  query_peb :: "'f \<Rightarrow> 'h option \<Rightarrow> 'e \<Rightarrow> 64 word"
  read_peb :: "'h option \<Rightarrow> 64 word \<Rightarrow> 'e \<Rightarrow> 64 word"
  read_parameters :: "'h option \<Rightarrow> 64 word \<Rightarrow> 'e \<Rightarrow> 64 word \<times> 16 word"
  read_wide :: "'h option \<Rightarrow> 64 word \<Rightarrow> 16 word \<Rightarrow> 'e \<Rightarrow> 16 word list"
  own_memory :: "64 word \<Rightarrow> 'e \<Rightarrow> 16 word list option"
  to_utf8 :: "16 word list \<Rightarrow> string"

definition max_process_count :: nat where
  "max_process_count = 65536"

subsection \<open>The object\<close>

record ('m, 'f) win_handler =
  m_dll_lib :: "'m option"
  m_nt_query_information_process_ptr :: "'f option"

definition new_win_handler :: "('m, 'f) win_handler" where
  "new_win_handler = \<lparr>m_dll_lib = None, m_nt_query_information_process_ptr = None\<rparr>"

type_synonym ('e, 'm, 'f, 'a) win_op = "(('m, 'f) win_handler \<times> 'e, 'a) cpp"

text \<open>A call of the API.\<close>

definition api_call :: "('e \<Rightarrow> 'a \<times> 'e) \<Rightarrow> ('e, 'm, 'f, 'a) win_op" where
  "api_call f = (\<lambda>(w, e). case f e of (a, e') \<Rightarrow> (Ok a, (w, e')))"

lemma api_call_apply: "api_call f (w, e) = (Ok (fst (f e)), (w, snd (f e)))"
  by (simp add: api_call_def split_beta)

definition load_nt_dll :: "('e, 'h, 'm, 'f) win_api \<Rightarrow> ('e, 'm, 'f, unit) win_op" where
  "load_nt_dll api = (\<lambda>(w, e).
     if m_dll_lib w \<noteq> None then (Ok (), (w, e))
     else andthen (api_call (load_library api ''Ntdll.dll'')) (\<lambda>m.
          andthen (modify (\<lambda>(w, e). (w\<lparr>m_dll_lib := m\<rparr>, e))) (\<lambda>_.
          if m = None then throw (Rito Lcu_parameters_exception ''Unable to dynamically load Ntdll.dll'')
          else ret ())) (w, e))"

definition retrieve_nt_query_information_process_function_pointer ::
  "('e, 'h, 'm, 'f) win_api \<Rightarrow> ('e, 'm, 'f, unit) win_op" where
  "retrieve_nt_query_information_process_function_pointer api = (\<lambda>(w, e).
     if m_nt_query_information_process_ptr w \<noteq> None then (Ok (), (w, e))
     else andthen (api_call (get_proc_address api (m_dll_lib w) ''NtQueryInformationProcess'')) (\<lambda>f.
          andthen (modify (\<lambda>(w, e). (w\<lparr>m_nt_query_information_process_ptr := f\<rparr>, e))) (\<lambda>_.
          if f = None then throw (Rito Lcu_parameters_exception
            ''Unable to retrieve NtQueryInformationProcess function pointer from Ntdll.dll'')
          else ret ())) (w, e))"

definition unload_nt_dll :: "('e, 'h, 'm, 'f) win_api \<Rightarrow> ('e, 'm, 'f, unit) win_op" where
  "unload_nt_dll api = (\<lambda>(w, e). case m_dll_lib w of
       None \<Rightarrow> (Ok (), (w, e))
     | Some lib \<Rightarrow> andthen (api_call (free_library api lib)) (\<lambda>_.
         modify (\<lambda>(w, e). (w\<lparr>m_dll_lib := None, m_nt_query_information_process_ptr := None\<rparr>, e))) (w, e))"

text \<open>The destructor.\<close>

definition win_destroy :: "('e, 'h, 'm, 'f) win_api \<Rightarrow> ('e, 'm, 'f, unit) win_op" where
  "win_destroy api = no_except (unload_nt_dll api)"

text \<open>The buffer is zeroed first, so without a module the name is empty.\<close>

definition extract_process_name ::
  "('e, 'h, 'm, 'f) win_api \<Rightarrow> 'h option \<Rightarrow> ('e, 'm, 'f, string) win_op" where
  "extract_process_name api process_handle = (case process_handle of
       None \<Rightarrow> ret (to_utf8 api [])
     | Some h \<Rightarrow> andthen (api_call (enum_process_modules api h)) (\<lambda>process_module_handle.
         case process_module_handle of
           None \<Rightarrow> ret (to_utf8 api [])
         | Some m \<Rightarrow> andthen (api_call (get_module_base_name api h m)) (\<lambda>process_name.
             ret (to_utf8 api process_name))))"

text \<open>The text that is converted is the one at \<open>command\<close>, not the one in \<open>command_buffer\<close>.\<close>

definition extract_process_command ::
  "('e, 'h, 'm, 'f) win_api \<Rightarrow> 'h option \<Rightarrow> ('e, 'm, 'f, string) win_op" where
  "extract_process_command api process_handle =
     andthen (load_nt_dll api) (\<lambda>_.
     andthen (retrieve_nt_query_information_process_function_pointer api) (\<lambda>_ (w, e).
     case m_nt_query_information_process_ptr w of
       None \<Rightarrow> (Abort Null_dereference, (w, e))
     | Some f \<Rightarrow>
         (let peb = query_peb api f process_handle e;
              process_parameters = read_peb api process_handle peb e;
              (command, command_length) = read_parameters api process_handle process_parameters e;
              command_buffer = read_wide api process_handle command command_length e
          in case own_memory api command e of
               None \<Rightarrow> (Abort Access_violation, (w, e))
             | Some text \<Rightarrow> (Ok (to_utf8 api text), (w, e)))))"

text \<open>The loop over the identifiers; \<open>None\<close> is the end of the loop without a return.\<close>

fun scan_process_ids ::
  "('e, 'h, 'm, 'f) win_api \<Rightarrow> 32 word list \<Rightarrow> ('e, 'm, 'f, string option) win_op" where
  "scan_process_ids api [] = ret None"
| "scan_process_ids api (p # ps) =
     (if p = 0 then scan_process_ids api ps
      else andthen (api_call (open_process api p)) (\<lambda>process_handle.
           andthen (extract_process_name api process_handle) (\<lambda>process_name.
           if process_name = ''LeagueClientUx.exe''
           then andthen
                  (try_catch (extract_process_command api process_handle)
                    (\<lambda>x. andthen (api_call (close_handle api process_handle)) (\<lambda>_. throw x)))
                  (\<lambda>process_command. andthen (api_call (close_handle api process_handle)) (\<lambda>_.
                   ret (Some process_command)))
           else andthen (api_call (close_handle api process_handle)) (\<lambda>_. scan_process_ids api ps))))"

text \<open>The vector has \<open>max_process_count\<close> elements, zero where \<open>EnumProcesses\<close> wrote none. Reading past
  its end is undefined behaviour.\<close>

definition win_get_lcu_process_command :: "('e, 'h, 'm, 'f) win_api \<Rightarrow> ('e, 'm, 'f, string) win_op" where
  "win_get_lcu_process_command api =
     andthen (api_call (enum_processes api max_process_count)) (\<lambda>written.
     case written of
       None \<Rightarrow> throw (Rito Lcu_parameters_exception ''Unable to to enumerate processes with EnumProcesses'')
     | Some (ids, bytes_returned) \<Rightarrow>
         (let processes = take max_process_count (ids @ replicate max_process_count 0);
              process_count = unat (bytes_returned div 4)
          in andthen (scan_process_ids api (take process_count processes)) (\<lambda>found.
             case found of
               Some process_command \<Rightarrow> ret process_command
             | None \<Rightarrow> if process_count \<le> max_process_count
                 then throw (Rito Lcu_parameters_exception ''Unable to find League Client process'')
                 else (\<lambda>s. (Abort Out_of_range, s)))))"

definition win_get_lcu_process_parameters :: "('e, 'h, 'm, 'f) win_api \<Rightarrow> ('e, 'm, 'f, lcu_parameters) win_op" where
  "win_get_lcu_process_parameters api =
     andthen (win_get_lcu_process_command api) (\<lambda>lcu_command. of_sum (lcu_parameters_of_command lcu_command))"

subsection \<open>Which exceptions leave\<close>

definition throws_only :: "(exn \<Rightarrow> bool) \<Rightarrow> ('s, 'a) cpp \<Rightarrow> bool" where
  "throws_only P m \<longleftrightarrow> (\<forall>s x t. m s = (Throw x, t) \<longrightarrow> P x)"

named_theorems throwing "what operations throw"

lemma throws_only_ret [throwing]: "throws_only P (ret a)"
  by (simp add: throws_only_def)

lemma throws_only_modify [throwing]: "throws_only P (modify f)"
  by (simp add: throws_only_def)

lemma throws_only_throw [throwing]: "P x \<Longrightarrow> throws_only P (throw x)"
  by (simp add: throws_only_def)

lemma throws_only_abort [throwing]: "throws_only P (\<lambda>s. (Abort b, s))"
  by (simp add: throws_only_def)

lemma throws_only_api [throwing]: "throws_only P (api_call f)"
  by (auto simp: throws_only_def api_call_def split: prod.splits)

lemma throws_only_andthen [throwing]:
  "throws_only P m \<Longrightarrow> (\<And>a. throws_only P (f a)) \<Longrightarrow> throws_only P (andthen m f)"
  by (auto simp: throws_only_def andthen_def split: prod.splits res.splits)

lemma throws_only_try_catch [throwing]:
  "throws_only P m \<Longrightarrow> (\<And>x. P x \<Longrightarrow> throws_only P (h x)) \<Longrightarrow> throws_only P (try_catch m h)"
  by (fastforce simp: throws_only_def try_catch_def split: prod.splits res.splits)

definition parameters_error :: "exn \<Rightarrow> bool" where
  "parameters_error x \<longleftrightarrow> (\<exists>m. x = Rito Lcu_parameters_exception m)"

lemma parameters_errorI [throwing]: "parameters_error (Rito Lcu_parameters_exception m)"
  by (simp add: parameters_error_def)

lemma throws_only_Pair [throwing]: "throws_only P (Pair (Ok a))"
  by (simp add: throws_only_def)

lemma dll_errors [throwing]:
  "throws_only parameters_error (load_nt_dll api)"
  "throws_only parameters_error (retrieve_nt_query_information_process_function_pointer api)"
  by (auto simp: throws_only_def load_nt_dll_def api_call_def andthen_def parameters_error_def
      retrieve_nt_query_information_process_function_pointer_def split: prod.splits if_splits res.splits)

lemma extract_process_command_errors [throwing]: "throws_only parameters_error (extract_process_command api h)"
  unfolding extract_process_command_def Let_def
  by (intro throwing) (auto simp: throws_only_def split: option.splits prod.splits)

lemma extract_process_name_errors [throwing]: "throws_only P (extract_process_name api h)"
  by (auto simp: extract_process_name_def intro!: throwing split: option.split)

lemma scan_errors [throwing]: "throws_only parameters_error (scan_process_ids api ps)"
  by (induction ps) (auto intro!: throwing)

lemma win_command_errors: "throws_only parameters_error (win_get_lcu_process_command api)"
  unfolding win_get_lcu_process_command_def Let_def
  by (auto intro!: throwing split: option.split)

subsection \<open>Handles\<close>

text \<open>
  The process handles that are open in the system, as Windows documents them: \<open>OpenProcess\<close> adds
  the one it returns, \<open>CloseHandle\<close> takes one away and does nothing for a null handle, and no other
  call changes them.
\<close>

definition counts_handles :: "('e, 'h, 'm, 'f) win_api \<Rightarrow> ('e \<Rightarrow> 'h multiset) \<Rightarrow> bool" where
  "counts_handles api opn \<longleftrightarrow>
     (\<forall>p e h e'. open_process api p e = (h, e') \<longrightarrow>
        opn e' = (case h of None \<Rightarrow> opn e | Some k \<Rightarrow> add_mset k (opn e))) \<and>
     (\<forall>h e b e'. close_handle api h e = (b, e') \<longrightarrow>
        opn e' = (case h of None \<Rightarrow> opn e | Some k \<Rightarrow> opn e - {#k#})) \<and>
     (\<forall>n e. opn (snd (enum_processes api n e)) = opn e) \<and>
     (\<forall>h e. opn (snd (enum_process_modules api h e)) = opn e) \<and>
     (\<forall>h m e. opn (snd (get_module_base_name api h m e)) = opn e) \<and>
     (\<forall>n e. opn (snd (load_library api n e)) = opn e) \<and>
     (\<forall>m n e. opn (snd (get_proc_address api m n e)) = opn e)"

definition same_handles :: "('e \<Rightarrow> 'h multiset) \<Rightarrow> ('m, 'f) win_handler \<times> 'e \<Rightarrow> ('m, 'f) win_handler \<times> 'e \<Rightarrow> bool" where
  "same_handles opn s t \<longleftrightarrow> opn (snd t) = opn (snd s)"

lemma same_handles_order: "reflp (same_handles opn)" "transp (same_handles opn)"
  by (auto simp: same_handles_def intro!: reflpI transpI)

lemma api_call_same: "(\<And>e. opn (snd (f e)) = opn e) \<Longrightarrow> keeps (same_handles opn) (api_call f)"
  by (rule keepsI) (simp add: same_handles_def api_call_def split_beta)

lemma extract_name_same:
  assumes "counts_handles api opn"
  shows "keeps (same_handles opn) (extract_process_name api h)"
  using assms
  by (auto simp: extract_process_name_def counts_handles_def intro!: keeps_andthen same_handles_order
      keeps_ret api_call_same split: option.split)

lemma dll_same:
  assumes "counts_handles api opn"
  shows "keeps (same_handles opn) (load_nt_dll api)"
    "keeps (same_handles opn) (retrieve_nt_query_information_process_function_pointer api)"
  using assms
  by (auto simp: load_nt_dll_def retrieve_nt_query_information_process_function_pointer_def
      counts_handles_def keeps_def same_handles_def api_call_apply andthen_def split_beta)

lemma extract_command_same:
  assumes "counts_handles api opn"
  shows "keeps (same_handles opn) (extract_process_command api h)"
  unfolding extract_process_command_def Let_def
  by (intro keeps_andthen same_handles_order dll_same [OF assms])
     (auto simp: keeps_def same_handles_def split: option.split prod.split)

text \<open>Opening a process, running something that leaves the handles alone, closing it.\<close>

lemma open_handles:
  assumes "counts_handles api opn"
  shows "opn (snd (open_process api p e)) =
     (case fst (open_process api p e) of None \<Rightarrow> opn e | Some k \<Rightarrow> add_mset k (opn e))"
  using assms by (metis counts_handles_def prod.collapse)

lemma close_handles:
  assumes "counts_handles api opn"
  shows "opn (snd (close_handle api h e)) = (case h of None \<Rightarrow> opn e | Some k \<Rightarrow> opn e - {#k#})"
  using assms by (metis counts_handles_def prod.collapse)

lemma open_close:
  assumes "counts_handles api opn" and "opn e' = opn (snd (open_process api p e))"
  shows "opn (snd (close_handle api (fst (open_process api p e)) e')) = opn e"
  using assms(2) by (simp add: close_handles [OF assms(1)] open_handles [OF assms(1)] split: option.splits)

lemma scan_handles:
  assumes "counts_handles api opn"
  shows "scan_process_ids api ps (w, e) = (r, (w', e')) \<Longrightarrow> \<not> is_abort r \<Longrightarrow> opn e' = opn e"
proof (induction ps arbitrary: w e)
  case (Cons p ps)
  show ?case
  proof (cases "p = 0")
    case True
    with Cons show ?thesis by simp
  next
    case False
    let ?h = "fst (open_process api p e)" and ?e = "snd (open_process api p e)"
    obtain q w1 e1 where n: "extract_process_name api ?h (w, ?e) = (q, (w1, e1))" by (metis prod.collapse)
    from keeps_resD [OF extract_name_same [OF assms] n] have e1: "opn e1 = opn ?e" by (simp add: same_handles_def)
    obtain c w2 e2 where x: "extract_process_command api ?h (w1, e1) = (c, (w2, e2))" by (metis prod.collapse)
    from keeps_resD [OF extract_command_same [OF assms] x] e1 have e2: "opn e2 = opn ?e"
      by (simp add: same_handles_def)
    note close = open_close [OF assms e1] open_close [OF assms e2]
    show ?thesis
    proof (cases q)
      case (Ok name)
      show ?thesis
      proof (cases "name = ''LeagueClientUx.exe''")
        case True
        with Cons.prems False Ok n x close show ?thesis
          by (cases c) (auto simp: api_call_apply andthen_def try_catch_def)
      next
        case other: False
        with Cons.prems False Ok n
        have "scan_process_ids api ps (w1, snd (close_handle api ?h e1)) = (r, (w', e'))"
          by (simp add: api_call_apply andthen_def)
        from Cons.IH [OF this Cons.prems(2)] close(1) show ?thesis by simp
      qed
    next
      case (Throw y)
      with n extract_process_name_errors [of "\<lambda>x. False" api ?h] show ?thesis
        by (auto simp: throws_only_def)
    next
      case (Abort b)
      with Cons.prems False n show ?thesis by (auto simp: api_call_apply andthen_def)
    qed
  qed
qed simp

text \<open>A small system for the witnesses: two processes, the second of which is the League client; its
  command line is read, but the address is not mapped here. The state is the multiset of handles.\<close>

definition small_win :: "(32 word multiset, 32 word, unit, unit) win_api" where
  "small_win =
     \<lparr>enum_processes = (\<lambda>n e. (Some ([4, 8], 8), e)),
      open_process = (\<lambda>p e. (Some p, add_mset p e)),
      close_handle = (\<lambda>h e. (True, case h of None \<Rightarrow> e | Some k \<Rightarrow> e - {#k#})),
      enum_process_modules = (\<lambda>h e. (Some (), e)),
      get_module_base_name = (\<lambda>h m e. ([ucast h], e)),
      load_library = (\<lambda>n e. (None, e)),
      get_proc_address = (\<lambda>m n e. (Some (), e)),
      free_library = (\<lambda>m e. (True, e)),
      query_peb = (\<lambda>f h e. 16), read_peb = (\<lambda>h a e. 32), read_parameters = (\<lambda>h a e. (64, 10)),
      read_wide = (\<lambda>h a n e. []), own_memory = (\<lambda>a e. None),
      to_utf8 = (\<lambda>t. if t = [8] then ''LeagueClientUx.exe'' else ''x'')\<rparr>"

lemma small_win_counts: "counts_handles small_win id"
  by (auto simp: counts_handles_def small_win_def split: option.split)

lemma small_win_run:
  "win_get_lcu_process_command small_win (new_win_handler, {#}) =
     (Throw (Rito Lcu_parameters_exception ''Unable to dynamically load Ntdll.dll''), (new_win_handler, {#}))"
  by (simp add: win_get_lcu_process_command_def small_win_def andthen_def api_call_apply max_process_count_def
      extract_process_name_def extract_process_command_def load_nt_dll_def try_catch_def new_win_handler_def)

subsection \<open>The library\<close>

text \<open>
  How often this process holds Ntdll.dll, as Windows documents it: \<open>LoadLibrary\<close> counts up when it
  succeeds, \<open>FreeLibrary\<close> down, and no other call changes the count.
\<close>

definition counts_libraries :: "('e, 'h, 'm, 'f) win_api \<Rightarrow> ('e \<Rightarrow> nat) \<Rightarrow> bool" where
  "counts_libraries api refs \<longleftrightarrow>
     (\<forall>n e m e'. load_library api n e = (m, e') \<longrightarrow> refs e' = refs e + (if m = None then 0 else 1)) \<and>
     (\<forall>m e. refs (snd (free_library api m e)) = refs e - 1) \<and>
     (\<forall>p e. refs (snd (open_process api p e)) = refs e) \<and>
     (\<forall>h e. refs (snd (close_handle api h e)) = refs e) \<and>
     (\<forall>n e. refs (snd (enum_processes api n e)) = refs e) \<and>
     (\<forall>h e. refs (snd (enum_process_modules api h e)) = refs e) \<and>
     (\<forall>h m e. refs (snd (get_module_base_name api h m e)) = refs e) \<and>
     (\<forall>m n e. refs (snd (get_proc_address api m n e)) = refs e)"

text \<open>The object holds the library once or not at all, and a function pointer only with it.\<close>

fun holds_library :: "('e \<Rightarrow> nat) \<Rightarrow> nat \<Rightarrow> ('m, 'f) win_handler \<times> 'e \<Rightarrow> bool" where
  "holds_library refs n (w, e) \<longleftrightarrow> refs e = n + (if m_dll_lib w = None then 0 else 1) \<and>
     (m_nt_query_information_process_ptr w \<noteq> None \<longrightarrow> m_dll_lib w \<noteq> None)"

definition keeps_library :: "('e \<Rightarrow> nat) \<Rightarrow> ('m, 'f) win_handler \<times> 'e \<Rightarrow> ('m, 'f) win_handler \<times> 'e \<Rightarrow> bool" where
  "keeps_library refs s t \<longleftrightarrow> (\<forall>n. holds_library refs n s \<longrightarrow> holds_library refs n t) \<and>
     (m_dll_lib (fst s) \<noteq> None \<longrightarrow> m_dll_lib (fst t) \<noteq> None)"

named_theorems library_kept "operations that keep the hold on the library"

lemma keeps_library_order [library_kept]: "reflp (keeps_library refs)" "transp (keeps_library refs)"
  by (auto simp: keeps_library_def intro!: reflpI transpI)

lemma api_call_library [library_kept]:
  "(\<And>e. refs (snd (f e)) = refs e) \<Longrightarrow> keeps (keeps_library refs) (api_call f)"
  by (rule keepsI) (auto simp: keeps_library_def api_call_apply)

declare keeps_andthen [library_kept] keeps_try_catch [library_kept] keeps_ret [library_kept]
  keeps_throw [library_kept]

text \<open>\<open>load_nt_dll\<close> takes hold of the library; only then a function pointer is asked for.\<close>

lemma load_nt_dll_library:
  assumes "counts_libraries api refs" and "load_nt_dll api s = (r, t)"
  shows "keeps_library refs s t \<and> (is_ok r \<longrightarrow> m_dll_lib (fst t) \<noteq> None)"
proof -
  obtain w e where s: "s = (w, e)" by (cases s)
  obtain m e' where l: "load_library api ''Ntdll.dll'' e = (m, e')" by (metis prod.collapse)
  with assms(1) have "refs e' = refs e + (if m = None then 0 else 1)" unfolding counts_libraries_def by blast
  with assms(2) l show ?thesis
    by (cases "m_dll_lib w"; cases m) (auto simp: s keeps_library_def load_nt_dll_def andthen_def api_call_apply)
qed

lemma retrieve_library:
  assumes "counts_libraries api refs" and "m_dll_lib (fst s) \<noteq> None"
    and "retrieve_nt_query_information_process_function_pointer api s = (r, t)"
  shows "keeps_library refs s t \<and> (is_ok r \<longrightarrow> m_nt_query_information_process_ptr (fst t) \<noteq> None)"
proof -
  obtain w e where s: "s = (w, e)" by (cases s)
  obtain f e' where l: "get_proc_address api (m_dll_lib w) ''NtQueryInformationProcess'' e = (f, e')"
    by (metis prod.collapse)
  from assms(1) have "refs (snd (get_proc_address api (m_dll_lib w) ''NtQueryInformationProcess'' e)) = refs e"
    by (simp add: counts_libraries_def)
  with l have "refs e' = refs e" by simp
  with assms(2,3) l show ?thesis
    by (cases "m_nt_query_information_process_ptr w"; cases f)
       (auto simp: s keeps_library_def retrieve_nt_query_information_process_function_pointer_def andthen_def
          api_call_apply)
qed

lemma extract_command_library:
  assumes "counts_libraries api refs" and "extract_process_command api h s = (r, u)"
  shows "keeps_library refs s u \<and> r \<noteq> Abort Null_dereference"
proof -
  obtain q t where q: "load_nt_dll api s = (q, t)" by (metis prod.collapse)
  obtain q' t' where q': "retrieve_nt_query_information_process_function_pointer api t = (q', t')"
    by (metis prod.collapse)
  note load = load_nt_dll_library [OF assms(1) q]
  have never: "\<not> is_abort q" "\<not> is_abort q'"
    using q q' by (auto simp: load_nt_dll_def retrieve_nt_query_information_process_function_pointer_def
        andthen_def api_call_def split: prod.splits if_splits)
  show ?thesis
  proof (cases q)
    case (Ok a)
    with load have "m_dll_lib (fst t) \<noteq> None" by simp
    note retrieve = retrieve_library [OF assms(1) this q']
    from load retrieve have st: "keeps_library refs s t'" by (blast dest: transpD [OF library_kept(2)])
    show ?thesis
    proof (cases q')
      case (Ok b)
      with retrieve have "m_nt_query_information_process_ptr (fst t') \<noteq> None" by simp
      with \<open>q = Ok a\<close> Ok assms(2) q q' st show ?thesis
        by (cases t') (auto simp: extract_process_command_def andthen_def Let_def split: prod.splits option.splits)
    qed (use \<open>q = Ok a\<close> assms(2) q q' st never in \<open>auto simp: extract_process_command_def andthen_def\<close>)
  qed (use assms(2) q load never in \<open>auto simp: extract_process_command_def andthen_def\<close>)
qed

lemma search_library:
  assumes "counts_libraries api refs"
  shows "keeps (keeps_library refs) (extract_process_name api h)"
    "keeps (keeps_library refs) (scan_process_ids api ps)"
    "keeps (keeps_library refs) (win_get_lcu_process_parameters api)"
proof -
  have [library_kept]: "keeps (keeps_library refs) (\<lambda>s. (r, s))" "keeps (keeps_library refs) (Pair r)" for r
    by (simp_all add: keeps_def keeps_library_def)
  have calls [library_kept]: "keeps (keeps_library refs) (api_call (open_process api p))"
    "keeps (keeps_library refs) (api_call (close_handle api k))"
    "keeps (keeps_library refs) (api_call (enum_processes api n))"
    "keeps (keeps_library refs) (api_call (enum_process_modules api g))"
    "keeps (keeps_library refs) (api_call (get_module_base_name api g m))" for p k n g m
    using assms by (auto simp: counts_libraries_def intro!: api_call_library)
  show name: "keeps (keeps_library refs) (extract_process_name api h)" for h
    by (auto simp: extract_process_name_def intro!: library_kept split: option.split)
  have cmd: "keeps (keeps_library refs) (extract_process_command api h)" for h
    using extract_command_library [OF assms] by (metis keepsI prod.collapse)
  show scan: "keeps (keeps_library refs) (scan_process_ids api ps)" for ps
    by (induction ps) (auto intro!: library_kept name cmd)
  have sum: "keeps (keeps_library refs) (of_sum x)" for x
    by (cases x) (auto intro!: library_kept)
  show "keeps (keeps_library refs) (win_get_lcu_process_parameters api)"
    unfolding win_get_lcu_process_parameters_def win_get_lcu_process_command_def Let_def
    by (auto intro!: library_kept scan sum split: option.split)
qed

text \<open>How a call can end the program.\<close>

definition aborts_only :: "(exn abort \<Rightarrow> bool) \<Rightarrow> ('s, 'a) cpp \<Rightarrow> bool" where
  "aborts_only P m \<longleftrightarrow> (\<forall>s b t. m s = (Abort b, t) \<longrightarrow> P b)"

named_theorems aborting "how operations end the program"

lemma aborts_onlyD: "aborts_only (\<lambda>b. b \<noteq> c) m \<Longrightarrow> fst (m s) \<noteq> Abort c"
  by (cases "m s") (auto simp: aborts_only_def)

lemma aborts_only_basic [aborting]:
  "aborts_only P (ret a)" "aborts_only P (throw x)" "aborts_only P (api_call f)" "aborts_only P (Pair (Ok a))"
  "P b \<Longrightarrow> aborts_only P (\<lambda>s. (Abort b, s))" "aborts_only P (of_sum r)"
  by (auto simp: aborts_only_def api_call_def of_sum_def split: prod.splits sum.splits)

lemma aborts_only_andthen [aborting]:
  "aborts_only P m \<Longrightarrow> (\<And>a. aborts_only P (f a)) \<Longrightarrow> aborts_only P (andthen m f)"
  by (auto simp: aborts_only_def andthen_def split: prod.splits res.splits)

lemma aborts_only_try_catch [aborting]:
  "aborts_only P m \<Longrightarrow> (\<And>x. aborts_only P (h x)) \<Longrightarrow> aborts_only P (try_catch m h)"
  by (auto simp: aborts_only_def try_catch_def split: prod.splits res.splits)

lemma search_aborts:
  assumes "counts_libraries api refs"
  shows "aborts_only (\<lambda>b. b \<noteq> Null_dereference) (win_get_lcu_process_parameters api)"
proof -
  have [aborting]: "aborts_only P (extract_process_name api h)" for P h
    by (auto simp: extract_process_name_def intro!: aborting split: option.split)
  have [aborting]: "aborts_only (\<lambda>b. b \<noteq> Null_dereference) (extract_process_command api h)" for h
    using extract_command_library [OF assms] unfolding aborts_only_def by blast
  have [aborting]: "aborts_only (\<lambda>b. b \<noteq> Null_dereference) (scan_process_ids api ps)" for ps
    by (induction ps) (auto intro!: aborting)
  show ?thesis
    unfolding win_get_lcu_process_parameters_def win_get_lcu_process_command_def Let_def
    by (auto intro!: aborting split: option.split)
qed

text \<open>Calls on one object.\<close>

definition win_calls ::
  "('e, 'h, 'm, 'f) win_api \<Rightarrow> nat \<Rightarrow> ('m, 'f) win_handler \<times> 'e \<Rightarrow> ('m, 'f) win_handler \<times> 'e" where
  "win_calls api n = (\<lambda>s. snd (win_get_lcu_process_parameters api s)) ^^ n"

lemma win_calls_library:
  assumes "counts_libraries api refs" and "holds_library refs n s"
  shows "holds_library refs n (win_calls api k s)"
proof (induction k)
  case (Suc k)
  then show ?case
    using keepsD [OF search_library(3) [OF assms(1)], of "win_calls api k s"]
    by (simp add: win_calls_def keeps_library_def del: holds_library.simps)
qed (simp add: win_calls_def assms(2))

subsection \<open>Properties\<close>

text \<open>C35. What \<open>ReadProcessMemory\<close> reads of the command line has no influence: for any other contents of
  the League client's command line the call has the same result and effect. The code converts the
  text at the client's address in its own memory instead of the buffer it has just filled.\<close>

theorem win_command_line_is_not_used:
  "win_get_lcu_process_command (api\<lparr>read_wide := f\<rparr>) = win_get_lcu_process_command api"
proof -
  have c: "extract_process_command (api\<lparr>read_wide := f\<rparr>) h = extract_process_command api h" for h
    by (simp add: extract_process_command_def load_nt_dll_def
        retrieve_nt_query_information_process_function_pointer_def Let_def split_beta
        cong: if_cong option.case_cong)
  have n: "extract_process_name (api\<lparr>read_wide := f\<rparr>) h = extract_process_name api h" for h
    by (simp add: extract_process_name_def cong: option.case_cong)
  have "scan_process_ids (api\<lparr>read_wide := f\<rparr>) ps = scan_process_ids api ps" for ps
    by (induction ps) (simp_all add: c n cong: if_cong)
  then show ?thesis by (simp add: win_get_lcu_process_command_def cong: option.case_cong)
qed

text \<open>On Windows the only exception that leaves the search for the command line is
  \<open>Lcu_parameters_exception\<close>; when the client is not running too, where the header documents
  \<open>Lcu_not_running_exception\<close>.\<close>

theorem win_command_exceptions:
  assumes "win_get_lcu_process_command api s = (Throw x, t)"
  shows "\<exists>m. x = Rito Lcu_parameters_exception m"
  using win_command_errors [unfolded throws_only_def, rule_format, OF assms] by (simp add: parameters_error_def)

theorem win_command_exceptions_witness:
  "\<exists>x t. win_get_lcu_process_command small_win (new_win_handler, {#}) = (Throw x, t) \<and>
     (\<exists>m. x = Rito Lcu_parameters_exception m)"
  using win_command_exceptions [OF small_win_run] small_win_run by blast

text \<open>C33. Every process handle that the search opens is closed, whether it finds the client, fails, or
  throws.\<close>

theorem win_handles_balanced:
  assumes "counts_handles api opn" and "win_get_lcu_process_command api (w, e) = (r, (w', e'))"
    and "\<not> is_abort r"
  shows "opn e' = opn e"
proof -
  let ?e = "snd (enum_processes api max_process_count e)"
  have en: "opn ?e = opn e" using assms(1) by (simp add: counts_handles_def)
  show ?thesis
  proof (cases "fst (enum_processes api max_process_count e)")
    case None
    with assms(2) en show ?thesis
      by (simp add: win_get_lcu_process_command_def andthen_def api_call_apply)
  next
    case (Some written)
    let ?ids = "take (unat (snd written div 4)) (take max_process_count (fst written @ replicate max_process_count 0))"
    obtain q w1 e1 where q: "scan_process_ids api ?ids (w, ?e) = (q, (w1, e1))" by (metis prod.collapse)
    with scan_handles [OF assms(1) q] en assms(2,3) Some show ?thesis
      by (cases q) (auto simp: win_get_lcu_process_command_def andthen_def api_call_apply Let_def split_beta
          split: option.splits if_splits)
  qed
qed

theorem win_handles_balanced_witness:
  "\<exists>r w' e'. win_get_lcu_process_command small_win (new_win_handler, {#}) = (r, (w', e')) \<and> is_throw r \<and> e' = {#}"
  using win_handles_balanced [OF small_win_counts small_win_run] small_win_run by simp

text \<open>C34. The object's hold on Ntdll.dll: after any number of calls, failed ones included, it holds the library
  once or not at all, and a function pointer only with it; no call goes through a null function pointer; and
  the destructor releases what is held, so that nothing is left.\<close>

theorem win_library_released:
  assumes "counts_libraries api refs" and "s = win_calls api k (new_win_handler, e)"
  shows "holds_library refs (refs e) s \<and>
     fst (win_get_lcu_process_parameters api s) \<noteq> Abort Null_dereference \<and>
     (\<exists>e'. win_destroy api s = (Ok (), (new_win_handler, e')) \<and> refs e' = refs e)"
proof -
  have held: "holds_library refs (refs e) s"
    unfolding assms(2) by (rule win_calls_library [OF assms(1)]) (simp add: new_win_handler_def)
  obtain w f where s: "s = (w, f)" by (cases s)
  have free: "refs (snd (free_library api m g)) = refs g - 1" for m g
    using assms(1) unfolding counts_libraries_def by blast
  from held have count: "refs f = refs e + (if m_dll_lib w = None then 0 else 1)"
    and "m_nt_query_information_process_ptr w \<noteq> None \<longrightarrow> m_dll_lib w \<noteq> None" by (simp_all add: s)
  then have new: "m_dll_lib w = None \<Longrightarrow> w = new_win_handler" by (cases w) (simp add: new_win_handler_def)
  have "\<exists>e'. win_destroy api s = (Ok (), (new_win_handler, e')) \<and> refs e' = refs e"
  proof (cases "m_dll_lib w")
    case None
    from new [OF None] count None have "w = new_win_handler" "refs f = refs e" by simp_all
    with None show ?thesis by (simp add: s win_destroy_def unload_nt_dll_def no_except_def)
  next
    case (Some m)
    have "win_destroy api s = (Ok (), (new_win_handler, snd (free_library api m f)))"
      using Some by (cases w) (simp add: s win_destroy_def unload_nt_dll_def no_except_def andthen_def api_call_apply
          new_win_handler_def)
    moreover have "refs (snd (free_library api m f)) = refs e" using Some count by (simp add: free)
    ultimately show ?thesis by blast
  qed
  moreover have "fst (win_get_lcu_process_parameters api s) \<noteq> Abort Null_dereference"
    using search_aborts [OF assms(1)] by (rule aborts_onlyD)
  ultimately show ?thesis using held by blast
qed

text \<open>In the witness the library is loaded by the first call and the function is not found.\<close>

definition counting_win :: "(nat, 32 word, unit, unit) win_api" where
  "counting_win =
     \<lparr>enum_processes = (\<lambda>n e. (Some ([8], 4), e)), open_process = (\<lambda>p e. (Some p, e)), close_handle = (\<lambda>h e. (True, e)),
      enum_process_modules = (\<lambda>h e. (Some (), e)), get_module_base_name = (\<lambda>h m e. ([ucast h], e)),
      load_library = (\<lambda>n e. (Some (), e + 1)), get_proc_address = (\<lambda>m n e. (None, e)),
      free_library = (\<lambda>m e. (True, e - 1)), query_peb = (\<lambda>f h e. 16), read_peb = (\<lambda>h a e. 32),
      read_parameters = (\<lambda>h a e. (64, 10)), read_wide = (\<lambda>h a n e. []), own_memory = (\<lambda>a e. None),
      to_utf8 = (\<lambda>t. ''LeagueClientUx.exe'')\<rparr>"

theorem win_library_released_witness:
  "snd (win_calls counting_win 2 (new_win_handler, 0)) = 1 \<and>
   (\<exists>e'. win_destroy counting_win (win_calls counting_win 2 (new_win_handler, 0)) = (Ok (), (new_win_handler, e')) \<and> e' = 0)"
proof -
  have "counts_libraries counting_win id" by (simp add: counts_libraries_def counting_win_def)
  note released = win_library_released [OF this refl, of 0 2]
  note eval = counting_win_def win_get_lcu_process_parameters_def win_get_lcu_process_command_def andthen_def
    api_call_apply max_process_count_def extract_process_name_def extract_process_command_def load_nt_dll_def
    try_catch_def new_win_handler_def retrieve_nt_query_information_process_function_pointer_def
  let ?w = "new_win_handler\<lparr>m_dll_lib := Some ()\<rparr> :: (unit, unit) win_handler"
  have "snd (win_get_lcu_process_parameters counting_win (new_win_handler, 0)) = (?w, 1)"
    "snd (win_get_lcu_process_parameters counting_win (?w, 1)) = (?w, 1)" by (simp_all add: eval)
  then have "win_calls counting_win 2 (new_win_handler, 0) = (?w, 1)" by (simp add: win_calls_def numeral_2_eq_2)
  with released show ?thesis by simp
qed

end
