(* ===== verification/Https_Websocket.thy ===== *)
theory Https_Websocket
  imports Rito_Types
begin

unbundle bit_operations_syntax

text \<open>
  \<open>src/https_websocket_client.cpp\<close>: one websocket connection over POCO. POCO is a parameter
  (\<open>poco_ws\<close>): sessions (\<open>'n\<close>) and sockets (\<open>'k\<close>) are opaque handles with their state in the
  environment. The receive loop keeps its counter at the width of the code, an 8-bit word.
\<close>

subsection \<open>What the code asks of POCO\<close>

text \<open>
  The session's constructor, \<open>WebSocket(session, request, response)\<close> with the credentials that
  were authenticated on the request, \<open>setMaxPayloadSize\<close>, \<open>sendFrame\<close>, the \<open>Buffer\<close> variant of
  \<open>receiveFrame\<close> (it gets the buffer and returns the length, the buffer after the call and the
  frame's flags) and \<open>shutdown\<close>. \<open>ws_ready\<close> tells whether a call of \<open>receiveFrame\<close> returns in a state; it
  waits otherwise, and the sequential operations do not look at it: there \<open>ws_receive_frame\<close> is what the
  call comes to in the end. The last field is \<open>std::this_thread::sleep_for\<close>, in seconds: what is outside
  may change meanwhile.
\<close>

record ('e, 'n, 'k) poco_ws =
  ws_session :: "string \<Rightarrow> 16 word \<Rightarrow> ('e, 'n) ext"
  ws_connect :: "'n \<Rightarrow> (string \<times> string) list \<Rightarrow> ('e, 'k) ext"
  ws_set_max_payload_size :: "'k \<Rightarrow> 32 word \<Rightarrow> ('e, unit) ext"
  ws_send_frame :: "'k \<Rightarrow> string \<Rightarrow> 32 word \<Rightarrow> 32 word \<Rightarrow> ('e, 32 word) ext"
  ws_receive_frame :: "'k \<Rightarrow> string \<Rightarrow> ('e, 32 word \<times> string \<times> 32 word) ext"
  ws_shutdown :: "'k \<Rightarrow> ('e, unit) ext"
  ws_ready :: "'k \<Rightarrow> 'e \<Rightarrow> bool"
  ws_sleep_for :: "nat \<Rightarrow> 'e \<Rightarrow> 'e"

text \<open>\<open>WebSocket::FRAME_FLAG_FIN\<close> and \<open>WebSocket::FRAME_TEXT\<close> (FIN and opcode 1, RFC 6455).\<close>

definition frame_flag_fin :: "32 word" where
  "frame_flag_fin = 0x80"

definition frame_text :: "32 word" where
  "frame_text = 0x81"

definition max_frame_size :: "32 word" where
  "max_frame_size = 65536"

definition max_frames_per_message :: "8 word" where
  "max_frames_per_message = 255"

subsection \<open>\<open>Https_websocket_client\<close>\<close>

text \<open>\<open>wc_request\<close> holds the credentials authenticated on \<open>m_request\<close>, oldest first.\<close>

record ('n, 'k) ws_client =
  wc_connected :: bool
  wc_host :: string
  wc_port :: "16 word"
  wc_session :: 'n
  wc_credentials :: "string \<times> string"
  wc_request :: "(string \<times> string) list"
  wc_websocket :: "'k option"

definition new_ws_client ::
  "('e, 'n, 'k) poco_ws \<Rightarrow> string \<Rightarrow> 16 word \<Rightarrow> ('e, ('n, 'k) ws_client) cpp" where
  "new_ws_client net host port =
     andthen (lift_ext (ws_session net host port)) (\<lambda>session.
     ret \<lparr>wc_connected = False, wc_host = host, wc_port = port, wc_session = session,
          wc_credentials = ([], []), wc_request = [], wc_websocket = None\<rparr>)"

definition ws_set_credentials :: "string \<Rightarrow> string \<Rightarrow> ('n, 'k) ws_client \<Rightarrow> ('n, 'k) ws_client" where
  "ws_set_credentials username password c =
     c\<lparr>wc_credentials := (username, password), wc_request := wc_request c @ [(username, password)]\<rparr>"

definition ws_is_connected :: "('n, 'k) ws_client \<Rightarrow> bool" where
  "ws_is_connected c = wc_connected c"

definition set_connected :: "bool \<Rightarrow> (('n, 'k) ws_client \<times> 'e, unit) cpp" where
  "set_connected b = modify (\<lambda>(c, e). (c\<lparr>wc_connected := b\<rparr>, e))"

definition set_websocket :: "'k option \<Rightarrow> (('n, 'k) ws_client \<times> 'e, unit) cpp" where
  "set_websocket k = modify (\<lambda>(c, e). (c\<lparr>wc_websocket := k\<rparr>, e))"

definition ws_start :: "('e, 'n, 'k) poco_ws \<Rightarrow> (('n, 'k) ws_client \<times> 'e, unit) cpp" where
  "ws_start net = (\<lambda>(c, e).
     if wc_websocket c = None
     then try_catch
            (andthen (on_env (lift_ext (ws_connect net (wc_session c) (wc_request c)))) (\<lambda>k.
             andthen (set_websocket (Some k)) (\<lambda>_.
             andthen (on_env (lift_ext (ws_set_max_payload_size net k max_frame_size))) (\<lambda>_.
             set_connected True))))
            (\<lambda>x. case x of
               Poco WebSocketException m \<Rightarrow>
                 throw (Rito Websocket_exception (''Failed to connect to websocket: '' @ m))
             | _ \<Rightarrow> if is_std_exception x then throw (Rito Unknown_exception (what x)) else throw x)
            (c, e)
     else ret () (c, e))"

definition ws_stop :: "('e, 'n, 'k) poco_ws \<Rightarrow> (('n, 'k) ws_client \<times> 'e, unit) cpp" where
  "ws_stop net =
     andthen
       (\<lambda>(c, e). case wc_websocket c of
          Some k \<Rightarrow> if wc_connected c
            then andthen (set_connected False) (\<lambda>_. on_env (lift_ext (ws_shutdown net k))) (c, e)
            else ret () (c, e)
        | None \<Rightarrow> ret () (c, e))
       (\<lambda>_. set_websocket None)"

text \<open>The destructor calls \<open>stop\<close> and is \<open>noexcept\<close>.\<close>

definition ws_destroy :: "('e, 'n, 'k) poco_ws \<Rightarrow> (('n, 'k) ws_client \<times> 'e, unit) cpp" where
  "ws_destroy net = no_except (ws_stop net)"

text \<open>\<open>static_cast<int>(message.size())\<close> keeps the low 32 bits.\<close>

definition ws_send_message ::
  "('e, 'n, 'k) poco_ws \<Rightarrow> string \<Rightarrow> (('n, 'k) ws_client \<times> 'e, bool) cpp" where
  "ws_send_message net message = (\<lambda>(c, e). case wc_websocket c of
       Some k \<Rightarrow> andthen (on_env (lift_ext (ws_send_frame net k message (word_of_nat (length message)) frame_text)))
                   (\<lambda>_. ret True) (c, e)
     | None \<Rightarrow> ret False (c, e))"

lemma loop_counter:
  "i < max_frames_per_message \<longleftrightarrow> unat i < 255"
  "i < max_frames_per_message \<Longrightarrow> unat (i + 1) = Suc (unat i)"
  by (simp_all add: max_frames_per_message_def word_less_nat_alt unat_word_ariths)

text \<open>The \<open>for\<close> loop of \<open>receive_message\<close>: \<open>Some\<close> is a full message, \<open>None\<close> the end of the loop
  without one.\<close>

function receive_frames ::
  "('e, 'n, 'k) poco_ws \<Rightarrow> 'k \<Rightarrow> 8 word \<Rightarrow> string \<Rightarrow> (('n, 'k) ws_client \<times> 'e, string option) cpp" where
  "receive_frames net k i message_buffer =
     (if i < max_frames_per_message
      then andthen (on_env (lift_ext (ws_receive_frame net k message_buffer))) (\<lambda>(frame_length, buffer, flags).
             if frame_length = 0 \<and> flags = 0
             then andthen (set_connected False) (\<lambda>_.
                  throw (Rito Websocket_exception ''Websocket client is disconnected''))
             else if flags AND frame_flag_fin \<noteq> 0 then ret (Some buffer)
             else receive_frames net k (i + 1) buffer)
      else ret None)"
  by pat_completeness auto
termination
  by (relation "measure (\<lambda>(net, k, i, b). 255 - unat i)")
     (auto simp: loop_counter(1) loop_counter(2))

declare receive_frames.simps [simp del]

text \<open>The \<open>try\<close> block of \<open>receive_message\<close> and its handlers: \<open>Some\<close> is \<open>return\<close>, \<open>None\<close> a timeout
  that was caught, after which control goes on.\<close>

definition receive_handler :: "exn \<Rightarrow> (('n, 'k) ws_client \<times> 'e, string option) cpp" where
  "receive_handler x = (case x of
       Poco TimeoutException _ \<Rightarrow> ret None
     | Rito Websocket_exception _ \<Rightarrow> throw x
     | Rito Message_exception _ \<Rightarrow> throw x
     | _ \<Rightarrow> if is_std_exception x
         then andthen (set_connected False) (\<lambda>_. throw (Rito Unknown_exception (what x)))
         else throw x)"

definition receive_attempt :: "('e, 'n, 'k) poco_ws \<Rightarrow> 'k \<Rightarrow> (('n, 'k) ws_client \<times> 'e, string option) cpp" where
  "receive_attempt net k =
     try_catch
       (andthen (receive_frames net k 0 []) (\<lambda>received. case received of
          None \<Rightarrow> throw (Rito Message_exception (''Message is longer than '' @
              to_string (unat (max_frame_size * ucast max_frames_per_message))))
        | Some message_buffer \<Rightarrow> ret (Some message_buffer)))
       receive_handler"

definition ws_receive_message :: "('e, 'n, 'k) poco_ws \<Rightarrow> (('n, 'k) ws_client \<times> 'e, string) cpp" where
  "ws_receive_message net = (\<lambda>(c, e). case wc_websocket c of
       Some k \<Rightarrow> andthen (receive_attempt net k) (\<lambda>returned. case returned of
              Some message_buffer \<Rightarrow> ret message_buffer
            | None \<Rightarrow> throw (Rito Websocket_exception ''Websocket client is not started'')) (c, e)
     | None \<Rightarrow> throw (Rito Websocket_exception ''Websocket client is not started'') (c, e))"

subsection \<open>What arrives and how it is put together\<close>

text \<open>
  What a socket will deliver: frames (payload and flags) and failing receive calls, in order. A
  closed connection is the frame with no payload and no flags. \<open>assemble n\<close> is the reference for
  the receive loop with \<open>n\<close> rounds left; \<open>Blocked\<close> is a call that waits for a frame that never
  comes.
\<close>

datatype incoming = Frame string "32 word" | Failure exn

datatype assembly = Complete string | Peer_closed | Too_long | Failed exn | Blocked

fun assemble :: "nat \<Rightarrow> string \<Rightarrow> incoming list \<Rightarrow> assembly \<times> incoming list" where
  "assemble 0 buf fs = (Too_long, fs)"
| "assemble (Suc n) buf [] = (Blocked, [])"
| "assemble (Suc n) buf (Failure x # fs) = (Failed x, fs)"
| "assemble (Suc n) buf (Frame p fl # fs) =
     (if p = [] \<and> fl = 0 then (Peer_closed, fs)
      else if fl AND frame_flag_fin \<noteq> 0 then (Complete (buf @ p), fs)
      else assemble n (buf @ p) fs)"

text \<open>
  POCO's documented behaviour of \<open>receiveFrame\<close> on a buffer: it appends the payload and returns
  its length and the flags, or throws. No frame is larger than the payload limit set in \<open>start\<close>.
\<close>

definition delivers :: "('e, 'n, 'k) poco_ws \<Rightarrow> 'k \<Rightarrow> ('e \<Rightarrow> incoming list) \<Rightarrow> bool" where
  "delivers net k inc \<longleftrightarrow> (\<forall>e buf.
     (\<forall>p fl fs. inc e = Frame p fl # fs \<longrightarrow>
        length p \<le> unat max_frame_size \<and>
        (\<exists>e'. ws_receive_frame net k buf e = (Inr (word_of_nat (length p), buf @ p, fl), e') \<and> inc e' = fs)) \<and>
     (\<forall>x fs. inc e = Failure x # fs \<longrightarrow>
        (\<exists>e'. ws_receive_frame net k buf e = (Inl x, e') \<and> inc e' = fs)))"

lemma delivers_Frame:
  assumes "delivers net k inc" and "inc e = Frame p fl # fs"
  obtains e' where "ws_receive_frame net k buf e = (Inr (word_of_nat (length p), buf @ p, fl), e')"
    and "inc e' = fs" and "(word_of_nat (length p) = (0 :: 32 word)) \<longleftrightarrow> p = []"
proof -
  from assms obtain e' where e': "ws_receive_frame net k buf e = (Inr (word_of_nat (length p), buf @ p, fl), e')"
    "inc e' = fs" and len: "length p \<le> 65536"
    unfolding delivers_def max_frame_size_def by fastforce
  have "(word_of_nat (length p) = (0 :: 32 word)) \<longleftrightarrow> length p mod 2 ^ 32 = 0"
    by (simp add: word_of_nat_eq_0_iff dvd_eq_mod_eq_0)
  also have "\<dots> \<longleftrightarrow> p = []" using len by simp
  finally show thesis using e' that by blast
qed

lemma delivers_Failure:
  assumes "delivers net k inc" and "inc e = Failure x # fs"
  obtains e' where "ws_receive_frame net k buf e = (Inl x, e')" and "inc e' = fs"
  using assms unfolding delivers_def by blast

text \<open>The outcome of the loop, as the operation's result.\<close>

fun loop_result :: "assembly \<Rightarrow> string option result" where
  "loop_result (Complete b) = Ok (Some b)"
| "loop_result Peer_closed = Throw (Rito Websocket_exception ''Websocket client is disconnected'')"
| "loop_result Too_long = Ok None"
| "loop_result (Failed x) = Throw x"
| "loop_result Blocked = Ok None"

lemma receive_frames_Failure:
  assumes "delivers net k inc" and "inc e = Failure x # fs" and "i < max_frames_per_message"
  obtains e' where "inc e' = fs" and "receive_frames net k i buf (c, e) = (Throw x, (c, e'))"
proof -
  obtain e' where "ws_receive_frame net k buf e = (Inl x, e')" "inc e' = fs"
    by (rule delivers_Failure [OF assms(1,2)])
  with assms(3) show thesis
    by (intro that [of e']) (auto simp: receive_frames.simps [of net k i buf] andthen_def on_env_def lift_ext_Inl)
qed

lemma receive_frames_Frame:
  assumes "delivers net k inc" and "inc e = Frame p fl # fs" and "i < max_frames_per_message"
  obtains e' where "inc e' = fs" and "receive_frames net k i buf (c, e) =
     (if p = [] \<and> fl = 0 then
        (Throw (Rito Websocket_exception ''Websocket client is disconnected''), (c\<lparr>wc_connected := False\<rparr>, e'))
      else if fl AND frame_flag_fin \<noteq> 0 then (Ok (Some (buf @ p)), (c, e'))
      else receive_frames net k (i + 1) (buf @ p) (c, e'))"
proof -
  obtain e' where "ws_receive_frame net k buf e = (Inr (word_of_nat (length p), buf @ p, fl), e')"
    "inc e' = fs" "(word_of_nat (length p) = (0 :: 32 word)) \<longleftrightarrow> p = []"
    by (rule delivers_Frame [OF assms(1,2)])
  with assms(3) show thesis
    by (intro that [of e'])
       (simp_all add: receive_frames.simps [of net k i buf] andthen_def on_env_def set_connected_def lift_ext_Inr)
qed

lemma receive_frames_assemble:
  assumes "delivers net k inc"
  shows "assemble (255 - unat i) buf (inc e) = (a, rest) \<Longrightarrow> a \<noteq> Blocked \<Longrightarrow>
     \<exists>e'. inc e' = rest \<and> receive_frames net k i buf (c, e) =
       (loop_result a, (if a = Peer_closed then c\<lparr>wc_connected := False\<rparr> else c, e'))"
proof (induction "255 - unat i" arbitrary: i buf e)
  case 0
  then have "\<not> i < max_frames_per_message" by (simp add: loop_counter(1))
  with 0 show ?case by (auto simp: receive_frames.simps [of net k i])
next
  case (Suc n)
  then have i: "i < max_frames_per_message" by (simp add: loop_counter(1))
  have asm: "assemble (Suc n) buf (inc e) = (a, rest)"
    using Suc.prems(1) by (simp only: Suc.hyps(2))
  show ?case
  proof (cases "inc e")
    case Nil
    with asm Suc.prems(2) show ?thesis by simp
  next
    case (Cons f fs)
    show ?thesis
    proof (cases f)
      case (Failure x)
      with Cons have inc: "inc e = Failure x # fs" by simp
      obtain e' where "inc e' = fs" and "receive_frames net k i buf (c, e) = (Throw x, (c, e'))"
        by (rule receive_frames_Failure [OF assms inc i])
      with asm inc show ?thesis by auto
    next
      case (Frame p fl)
      with Cons have inc: "inc e = Frame p fl # fs" by simp
      have n: "n = 255 - unat (i + 1)" using Suc.hyps(2) i by (simp add: loop_counter(2))
      obtain e' where "inc e' = fs" and "receive_frames net k i buf (c, e) =
         (if p = [] \<and> fl = 0 then
            (Throw (Rito Websocket_exception ''Websocket client is disconnected''), (c\<lparr>wc_connected := False\<rparr>, e'))
          else if fl AND frame_flag_fin \<noteq> 0 then (Ok (Some (buf @ p)), (c, e'))
          else receive_frames net k (i + 1) (buf @ p) (c, e'))"
        by (rule receive_frames_Frame [OF assms inc i])
      with asm inc Suc.hyps(1) [OF n, of "buf @ p" e'] Suc.prems(2) n show ?thesis
        by (auto split: if_splits)
    qed
  qed
qed

text \<open>A frame that neither ends a message nor closes the connection.\<close>

fun nonfinal :: "incoming \<Rightarrow> bool" where
  "nonfinal (Frame p fl) = (fl AND frame_flag_fin = 0 \<and> \<not> (p = [] \<and> fl = 0))"
| "nonfinal (Failure x) = False"

fun payload :: "incoming \<Rightarrow> string" where
  "payload (Frame p fl) = p"
| "payload (Failure x) = []"

lemma assemble_complete:
  "list_all nonfinal gs \<Longrightarrow> length gs < n \<Longrightarrow> fl AND frame_flag_fin \<noteq> 0 \<Longrightarrow>
     assemble n buf (gs @ Frame p fl # rest) = (Complete (buf @ concat (map payload gs) @ p), rest)"
proof (induction gs arbitrary: n buf)
  case Nil
  then show ?case by (cases n) auto
next
  case (Cons g gs)
  then show ?case by (cases n; cases g) simp_all
qed

lemma assemble_too_long:
  "list_all nonfinal gs \<Longrightarrow> length gs = n \<Longrightarrow> assemble n buf (gs @ rest) = (Too_long, rest)"
proof (induction gs arbitrary: n buf)
  case (Cons g gs)
  then show ?case by (cases n; cases g) auto
qed simp

text \<open>The outcome of a whole \<open>receive_message\<close>.\<close>

fun receive_result :: "assembly \<Rightarrow> string result" where
  "receive_result (Complete b) = Ok b"
| "receive_result Peer_closed = Throw (Rito Websocket_exception ''Websocket client is disconnected'')"
| "receive_result Too_long = Throw (Rito Message_exception ''Message is longer than 16711680'')"
| "receive_result (Failed (Poco TimeoutException _)) =
     Throw (Rito Websocket_exception ''Websocket client is not started'')"
| "receive_result (Failed (Rito Websocket_exception m)) = Throw (Rito Websocket_exception m)"
| "receive_result (Failed (Rito Message_exception m)) = Throw (Rito Message_exception m)"
| "receive_result (Failed (Foreign n)) = Throw (Foreign n)"
| "receive_result (Failed x) = Throw (Rito Unknown_exception (what x))"
| "receive_result Blocked = Ok []"

fun loses_connection :: "assembly \<Rightarrow> bool" where
  "loses_connection Peer_closed = True"
| "loses_connection (Failed (Poco TimeoutException _)) = False"
| "loses_connection (Failed (Rito Websocket_exception m)) = False"
| "loses_connection (Failed (Rito Message_exception m)) = False"
| "loses_connection (Failed x) = is_std_exception x"
| "loses_connection _ = False"

lemma too_long_text:
  "to_string (unat (max_frame_size * ucast max_frames_per_message)) = ''16711680''"
  by (simp add: max_frame_size_def max_frames_per_message_def to_string.simps)

subsection \<open>The transport contract\<close>

text \<open>What \<open>Lcu_websocket_handler\<close> relies on: \<open>idle\<close> is a client that was not started yet.\<close>

locale ws_transport =
  fixes inv connected idle :: "'c \<Rightarrow> bool"
    and start stop :: "('c \<times> 'e, unit) cpp"
    and send :: "string \<Rightarrow> ('c \<times> 'e, bool) cpp"
    and receive :: "('c \<times> 'e, string) cpp"
  assumes idle_inv: "idle c \<Longrightarrow> inv c \<and> \<not> connected c"
    and start_law: "inv c \<Longrightarrow> start (c, e) = (r, (c', e')) \<Longrightarrow>
          inv c' \<and> \<not> is_abort r \<and> (idle c \<longrightarrow> (connected c' \<longleftrightarrow> is_ok r))"
    and stop_law: "inv c \<Longrightarrow> stop (c, e) = (r, (c', e')) \<Longrightarrow>
          inv c' \<and> \<not> is_abort r \<and> \<not> connected c' \<and> (is_ok r \<longrightarrow> idle c')"
    and stop_quiet: "inv c \<Longrightarrow> \<not> connected c \<Longrightarrow> \<exists>c'. stop (c, e) = (Ok (), (c', e))"
    and send_law: "send m (c, e) = (b, (c', e')) \<Longrightarrow> c' = c \<and> \<not> is_abort b"
    and send_connected: "inv c \<Longrightarrow> connected c \<Longrightarrow> send m (c, e) = (Ok sent, s) \<Longrightarrow> sent"
    and receive_law: "inv c \<Longrightarrow> receive (c, e) = (q, (c', e')) \<Longrightarrow>
          inv c' \<and> \<not> is_abort q \<and> (connected c' \<longrightarrow> connected c)"
begin

text \<open>Destroying a client that is not connected does nothing to the environment and does not end
  the program.\<close>

lemma destroy_quiet:
  assumes "inv c" and "\<not> connected c"
  shows "\<exists>c'. no_except stop (c, e) = (Ok (), (c', e))"
  using stop_quiet [OF assms, of e] by (auto simp: no_except_def)

lemma destroy_terminates:
  assumes "inv c" and "no_except stop (c, e) = (Abort b, s)"
  shows "connected c \<and> (\<exists>x. b = Terminate x \<and> stop (c, e) = (Throw x, s))"
proof -
  obtain r c' e' where st: "stop (c, e) = (r, (c', e'))" by (metis prod.collapse)
  with assms(1) have "\<not> is_abort r" using stop_law by blast
  with st assms(2) have "\<exists>x. b = Terminate x \<and> stop (c, e) = (Throw x, s)"
    by (cases r) (auto simp: no_except_def)
  moreover have "connected c"
  proof (rule ccontr)
    assume "\<not> connected c"
    with assms(1) calculation show False using stop_quiet [of c e] by auto
  qed
  ultimately show ?thesis by blast
qed

text \<open>A client can be used again: after a stop it is idle, and a start that returns leaves it connected.\<close>

lemma restart:
  assumes "inv c" and "stop (c, e) = (Ok (), (c1, e1))" and "start (c1, e1) = (Ok (), (c2, e2))"
  shows "inv c2 \<and> connected c2"
proof -
  from stop_law [OF assms(1,2)] have "inv c1" "idle c1" by simp_all
  with start_law [OF _ assms(3)] show ?thesis by simp
qed

end

text \<open>A connected client has a socket. (The converse fails: a dead connection keeps its socket
  until the client is stopped.)\<close>

definition ws_inv :: "('n, 'k) ws_client \<Rightarrow> bool" where
  "ws_inv c \<longleftrightarrow> (wc_connected c \<longrightarrow> wc_websocket c \<noteq> None)"

definition ws_idle :: "('n, 'k) ws_client \<Rightarrow> bool" where
  "ws_idle c \<longleftrightarrow> \<not> wc_connected c \<and> wc_websocket c = None"

text \<open>The receive loop leaves every field but \<open>m_connected\<close>, which it only clears.\<close>

definition only_disconnects :: "('n, 'k) ws_client \<times> 'e \<Rightarrow> ('n, 'k) ws_client \<times> 'e \<Rightarrow> bool" where
  "only_disconnects a b \<longleftrightarrow> fst b = fst a \<or> fst b = (fst a)\<lparr>wc_connected := False\<rparr>"

lemma only_disconnects_order: "reflp only_disconnects" "transp only_disconnects"
  by (auto simp: only_disconnects_def intro!: reflpI transpI)

lemma on_env_disconnects: "keeps only_disconnects (on_env m)"
  by (rule keepsI) (auto simp: only_disconnects_def on_env_def split: prod.split)

lemma set_connected_disconnects: "keeps only_disconnects (set_connected False)"
  by (rule keepsI) (auto simp: only_disconnects_def set_connected_def split: prod.split)

lemma receive_frames_disconnects: "keeps only_disconnects (receive_frames net k i buf)"
proof (induction net k i buf rule: receive_frames.induct)
  case (1 net k i buf)
  show ?case
    unfolding receive_frames.simps [of net k i buf]
    by (auto intro!: keeps_andthen only_disconnects_order on_env_disconnects set_connected_disconnects
        keeps_ret keeps_throw 1 split: prod.split)
qed

lemma never_aborts_receive_frames [no_abort]: "never_aborts (receive_frames net k i buf)"
proof (induction net k i buf rule: receive_frames.induct)
  case (1 net k i buf)
  show ?case
    unfolding receive_frames.simps [of net k i buf] set_connected_def
    by (auto intro!: no_abort 1 split: prod.split)
qed

lemma receive_handler_disconnects: "keeps only_disconnects (receive_handler x)"
  unfolding receive_handler_def
  by (auto intro!: keeps_andthen only_disconnects_order set_connected_disconnects keeps_ret keeps_throw
      split: exn.split poco_class.split rito_class.split)

lemma never_aborts_receive_handler [no_abort]: "never_aborts (receive_handler x)"
  unfolding receive_handler_def set_connected_def
  by (auto intro!: no_abort split: exn.split poco_class.split rito_class.split)

lemma receive_attempt_disconnects: "keeps only_disconnects (receive_attempt net k)"
  unfolding receive_attempt_def
  by (auto intro!: keeps_try_catch keeps_andthen only_disconnects_order receive_frames_disconnects
      receive_handler_disconnects keeps_ret keeps_throw split: option.split)

lemma never_aborts_receive_attempt [no_abort]: "never_aborts (receive_attempt net k)"
  unfolding receive_attempt_def by (auto intro!: no_abort split: option.split)

lemma ws_receive_Some:
  "wc_websocket c = Some k \<Longrightarrow> ws_receive_message net (c, e) =
     (case receive_attempt net k (c, e) of
        (Ok (Some b), t) \<Rightarrow> (Ok b, t)
      | (Ok None, t) \<Rightarrow> (Throw (Rito Websocket_exception ''Websocket client is not started''), t)
      | (Throw x, t) \<Rightarrow> (Throw x, t)
      | (Abort a, t) \<Rightarrow> (Abort a, t))"
  by (simp add: ws_receive_message_def andthen_def split: prod.split res.split option.split)

lemma ws_receive_frame:
  assumes "ws_receive_message net (c, e) = (r, (c', e'))"
  shows "(c' = c \<or> c' = c\<lparr>wc_connected := False\<rparr>) \<and> \<not> is_abort r"
proof (cases "wc_websocket c")
  case (Some k)
  obtain q t where a: "receive_attempt net k (c, e) = (q, t)" by (cases "receive_attempt net k (c, e)")
  have "\<not> is_abort q" using never_aborts_receive_attempt a by (metis fst_conv never_aborts_def)
  moreover have "only_disconnects (c, e) t" using receive_attempt_disconnects a by (rule keeps_resD)
  ultimately show ?thesis
    using assms a Some
    by (cases q) (auto simp: ws_receive_Some only_disconnects_def split: option.splits)
qed (use assms in \<open>auto simp: ws_receive_message_def\<close>)

text \<open>
  The same receive loop, cut at the calls of \<open>receiveFrame\<close>. \<open>receive_round\<close> is one round of the loop
  with \<open>i\<close> frames received before: the buffer after it and whether the message is full, or the exception
  that leaves \<open>receive_message\<close>. \<open>receive_from\<close> is the rest of \<open>receive_message\<close> at that point.
\<close>

definition receive_round ::
  "('e, 'n, 'k) poco_ws \<Rightarrow> 8 word \<Rightarrow> string \<Rightarrow> (('n, 'k) ws_client \<times> 'e, string \<times> bool) cpp" where
  "receive_round net i message_buffer = (\<lambda>(c, e). case wc_websocket c of
       None \<Rightarrow> (Abort Null_dereference, (c, e))
     | Some k \<Rightarrow>
         try_catch
           (if i < max_frames_per_message
            then andthen (on_env (lift_ext (ws_receive_frame net k message_buffer))) (\<lambda>(frame_length, buffer, flags).
                   if frame_length = 0 \<and> flags = 0
                   then andthen (set_connected False) (\<lambda>_.
                        throw (Rito Websocket_exception ''Websocket client is disconnected''))
                   else ret (buffer, flags AND frame_flag_fin \<noteq> 0))
            else throw (Rito Message_exception (''Message is longer than '' @
                   to_string (unat (max_frame_size * ucast max_frames_per_message)))))
           (\<lambda>x. andthen (receive_handler x) (\<lambda>_.
              throw (Rito Websocket_exception ''Websocket client is not started''))) (c, e))"

definition receive_from ::
  "('e, 'n, 'k) poco_ws \<Rightarrow> 8 word \<Rightarrow> string \<Rightarrow> (('n, 'k) ws_client \<times> 'e, string) cpp" where
  "receive_from net i message_buffer = (\<lambda>(c, e). case wc_websocket c of
       None \<Rightarrow> (Abort Null_dereference, (c, e))
     | Some k \<Rightarrow>
         andthen
           (try_catch
             (andthen (receive_frames net k i message_buffer) (\<lambda>received. case received of
                None \<Rightarrow> throw (Rito Message_exception (''Message is longer than '' @
                    to_string (unat (max_frame_size * ucast max_frames_per_message))))
              | Some buffer \<Rightarrow> ret (Some buffer)))
             receive_handler)
           (\<lambda>returned. case returned of
              Some buffer \<Rightarrow> ret buffer
            | None \<Rightarrow> throw (Rito Websocket_exception ''Websocket client is not started'')) (c, e))"

lemma receive_from_start:
  assumes "wc_websocket c \<noteq> None"
  shows "ws_receive_message net (c, e) = receive_from net 0 [] (c, e)"
proof -
  from assms obtain k where "wc_websocket c = Some k" by blast
  then show ?thesis
    unfolding ws_receive_message_def receive_from_def receive_attempt_def by (simp only: prod.case option.case)
qed

lemma receive_handler_no_message: "receive_handler x s \<noteq> (Ok (Some b), t)"
  by (cases s) (auto simp: receive_handler_def set_connected_def split: exn.split poco_class.split rito_class.split)

lemma receive_from_round:
  assumes "wc_websocket c \<noteq> None"
  shows "receive_from net i buf (c, e) = (case receive_round net i buf (c, e) of
      (Ok (b, full), s) \<Rightarrow> if full then (Ok b, s) else receive_from net (i + 1) b s
    | (Throw x, s) \<Rightarrow> (Throw x, s)
    | (Abort a, s) \<Rightarrow> (Abort a, s))"
proof -
  from assms obtain k where k: "wc_websocket c = Some k" by blast
  note defs = receive_from_def receive_round_def receive_frames.simps [of net k i buf] andthen_def try_catch_def
    on_env_def set_connected_def
  show ?thesis
  proof (cases "i < max_frames_per_message")
    case False
    with k show ?thesis
      by (auto simp: defs receive_handler_def split: exn.split poco_class.split rito_class.split)
  next
    case True
    obtain r d where f: "ws_receive_frame net k buf e = (r, d)" by (metis prod.collapse)
    show ?thesis
    proof (cases r)
      case (Inl x)
      with k True f show ?thesis
        by (auto simp: defs lift_ext_Inl receive_handler_no_message split: res.split option.split prod.split)
    next
      case (Inr v)
      obtain l b fl where v: "v = (l, b, fl)" by (cases v)
      with k True f Inr show ?thesis
        by (auto simp: defs lift_ext_Inr receive_handler_def split: res.split option.split prod.split)
    qed
  qed
qed

lemma receive_round_frame:
  assumes "wc_websocket c \<noteq> None" and "receive_round net i buf (c, e) = (r, (c', e'))"
  shows "\<not> is_abort r \<and> (c' = c \<or> c' = c\<lparr>wc_connected := False\<rparr> \<and> is_throw r) \<and> wc_websocket c' \<noteq> None \<and>
     (\<not> i < max_frames_per_message \<longrightarrow> is_throw r)"
  using assms
  by (auto simp: receive_round_def receive_handler_def andthen_def try_catch_def on_env_def lift_ext_def set_connected_def
      split: if_splits prod.splits sum.splits exn.splits poco_class.splits rito_class.splits)

lemma ws_start_frame:
  assumes "ws_inv c" and "ws_start net (c, e) = (r, (c', e'))"
  shows "ws_inv c' \<and> \<not> is_abort r \<and> (ws_idle c \<longrightarrow> (wc_connected c' \<longleftrightarrow> is_ok r)) \<and>
     (\<forall>x. r = Throw x \<longrightarrow> is_std_exception x \<longrightarrow> is_rito_exception x)"
  using assms
  by (auto simp: ws_start_def try_catch_def andthen_def on_env_def lift_ext_def set_websocket_def
      set_connected_def ws_inv_def ws_idle_def
      split: if_splits prod.splits sum.splits exn.splits poco_class.splits)

lemma ws_stop_frame:
  "ws_inv c \<Longrightarrow> ws_stop net (c, e) = (r, (c', e')) \<Longrightarrow>
     ws_inv c' \<and> \<not> is_abort r \<and> \<not> wc_connected c' \<and> (is_ok r \<longrightarrow> ws_idle c')"
  by (auto simp: ws_stop_def andthen_def on_env_def lift_ext_def set_websocket_def
      set_connected_def ws_inv_def ws_idle_def
      split: if_splits prod.splits sum.splits option.splits)

lemma ws_idle_inv: "ws_idle c \<Longrightarrow> ws_inv c \<and> \<not> ws_is_connected c"
  by (simp add: ws_idle_def ws_inv_def ws_is_connected_def)

lemma ws_start_law:
  "ws_inv c \<Longrightarrow> ws_start net (c, e) = (r, (c', e')) \<Longrightarrow>
     ws_inv c' \<and> \<not> is_abort r \<and> (ws_idle c \<longrightarrow> (ws_is_connected c' \<longleftrightarrow> is_ok r))"
  using ws_start_frame [of c net e r c' e'] by (simp add: ws_is_connected_def)

lemma ws_stop_law:
  "ws_inv c \<Longrightarrow> ws_stop net (c, e) = (r, (c', e')) \<Longrightarrow>
     ws_inv c' \<and> \<not> is_abort r \<and> \<not> ws_is_connected c' \<and> (is_ok r \<longrightarrow> ws_idle c')"
  using ws_stop_frame [of c net e r c' e'] by (simp add: ws_is_connected_def)

lemma ws_stop_quiet: "ws_inv c \<Longrightarrow> \<not> ws_is_connected c \<Longrightarrow> \<exists>c'. ws_stop net (c, e) = (Ok (), (c', e))"
  by (simp add: ws_stop_def andthen_def set_websocket_def ws_is_connected_def split: option.split)

lemma ws_send_law: "ws_send_message net m (c, e) = (b, (c', e')) \<Longrightarrow> c' = c \<and> \<not> is_abort b"
  by (auto simp: ws_send_message_def andthen_def on_env_def lift_ext_def
      split: option.splits prod.splits sum.splits)

lemma ws_send_connected:
  "ws_inv c \<Longrightarrow> ws_is_connected c \<Longrightarrow> ws_send_message net m (c, e) = (Ok sent, s) \<Longrightarrow> sent"
  by (auto simp: ws_send_message_def andthen_def on_env_def lift_ext_def ws_inv_def ws_is_connected_def
      split: option.splits prod.splits sum.splits)

lemma ws_receive_law:
  "ws_inv c \<Longrightarrow> ws_receive_message net (c, e) = (q, (c', e')) \<Longrightarrow>
     ws_inv c' \<and> \<not> is_abort q \<and> (ws_is_connected c' \<longrightarrow> ws_is_connected c)"
  using ws_receive_frame [of net c e q c' e'] by (auto simp: ws_inv_def ws_is_connected_def)

interpretation ws: ws_transport ws_inv ws_is_connected ws_idle "ws_start net" "ws_stop net"
  "ws_send_message net" "ws_receive_message net"
  for net
  by unfold_locales
    (blast dest: ws_idle_inv ws_start_law ws_stop_law ws_send_law ws_send_connected ws_receive_law
      intro: ws_stop_quiet)+

text \<open>The states a client can be in: constructed, then any operations in any order, each with any
  outcome.\<close>

inductive ws_reachable :: "('e, 'n, 'k) poco_ws \<Rightarrow> ('n, 'k) ws_client \<Rightarrow> bool" for net where
  constructed: "new_ws_client net host port e = (Ok c, e') \<Longrightarrow> ws_reachable net c"
| credentials: "ws_reachable net c \<Longrightarrow> ws_reachable net (ws_set_credentials u p c)"
| started: "ws_reachable net c \<Longrightarrow> ws_start net (c, e) = (r, (c', e')) \<Longrightarrow> ws_reachable net c'"
| stopped: "ws_reachable net c \<Longrightarrow> ws_stop net (c, e) = (r, (c', e')) \<Longrightarrow> ws_reachable net c'"
| sent: "ws_reachable net c \<Longrightarrow> ws_send_message net m (c, e) = (b, (c', e')) \<Longrightarrow> ws_reachable net c'"
| received: "ws_reachable net c \<Longrightarrow> ws_receive_message net (c, e) = (q, (c', e')) \<Longrightarrow> ws_reachable net c'"

lemma new_ws_client_idle: "new_ws_client net host port e = (Ok c, e') \<Longrightarrow> ws_idle c"
  using lift_ext_cases [of "ws_session net host port" e]
  by (auto simp: new_ws_client_def andthen_def ws_idle_def)

subsection \<open>A scripted POCO for the witnesses\<close>

text \<open>The environment is the list of what arrives; a frame above the payload limit arrives as the
  exception POCO throws for it, and an exhausted script is a timeout.\<close>

fun clip :: "incoming \<Rightarrow> incoming" where
  "clip (Frame p fl) = (if length p \<le> unat max_frame_size then Frame p fl
     else Failure (Poco WebSocketException ''Payload too big''))"
| "clip (Failure x) = Failure x"

definition scripted_ws :: "(incoming list, unit, unit) poco_ws" where
  "scripted_ws =
     \<lparr>ws_session = (\<lambda>h p e. (Inr (), e)),
      ws_connect = (\<lambda>n cr e. (Inr (), e)),
      ws_set_max_payload_size = (\<lambda>k n e. (Inr (), e)),
      ws_send_frame = (\<lambda>k m l f e. (Inr l, e)),
      ws_receive_frame = (\<lambda>k buf e. case map clip e of
          [] \<Rightarrow> (Inl (Poco TimeoutException ''Timeout''), [])
        | Frame p fl # _ \<Rightarrow> (Inr (word_of_nat (length p), buf @ p, fl), tl e)
        | Failure x # _ \<Rightarrow> (Inl x, tl e)),
      ws_shutdown = (\<lambda>k e. (Inr (), e)),
      ws_ready = (\<lambda>k e. True),
      ws_sleep_for = (\<lambda>n e. e)\<rparr>"

lemma clip_Frame: "clip f = Frame p fl \<Longrightarrow> length p \<le> unat max_frame_size"
  by (cases f) (auto split: if_splits)

lemma scripted_delivers: "delivers scripted_ws k (map clip)"
  unfolding delivers_def by (auto simp: scripted_ws_def map_tl [symmetric] dest: clip_Frame)

definition open_client :: "(unit, unit) ws_client" where
  "open_client = \<lparr>wc_connected = True, wc_host = ''127.0.0.1'', wc_port = 12345, wc_session = (),
     wc_credentials = (''riot'', ''tok''), wc_request = [(''riot'', ''tok'')], wc_websocket = Some ()\<rparr>"

lemma open_client_socket [simp]: "wc_websocket open_client = Some ()" "wc_connected open_client"
  by (simp_all add: open_client_def)

subsection \<open>Properties\<close>

lemma receive_outcome:
  assumes "delivers net k inc" and "wc_websocket c = Some k"
    and "assemble 255 [] (inc e) = (a, rest)" and "a \<noteq> Blocked"
  shows "\<exists>e'. inc e' = rest \<and> ws_receive_message net (c, e) =
     (receive_result a, (if loses_connection a then c\<lparr>wc_connected := False\<rparr> else c, e'))"
proof -
  from assms(3) have "assemble (255 - unat (0 :: 8 word)) [] (inc e) = (a, rest)" by simp
  then obtain e' where "inc e' = rest" and "receive_frames net k 0 [] (c, e) =
      (loop_result a, (if a = Peer_closed then c\<lparr>wc_connected := False\<rparr> else c, e'))"
    using receive_frames_assemble [OF assms(1)] assms(4) by blast
  then show ?thesis
    using assms(2,4)
    by (cases a) (auto simp: ws_receive_Some receive_attempt_def receive_handler_def andthen_def
        try_catch_def too_long_text set_connected_def split: exn.split poco_class.split rito_class.split)
qed

text \<open>C6. \<open>receive_message\<close> computes the reference \<open>assemble 255\<close>: with at most 255 frames it returns
  the concatenated payloads at the first frame with FIN, throws \<open>Websocket_exception\<close> and marks the
  client disconnected when the peer closed, throws \<open>Message_exception\<close> after 255 frames without FIN,
  and turns what POCO throws into \<open>Websocket_exception\<close> (timeout) or \<open>Unknown_exception\<close> (any other
  standard exception, client marked disconnected). It consumes exactly the frames of the reference,
  and always ends when those arrive. It relies on POCO's documented \<open>receiveFrame\<close>.\<close>

theorem ws_receive_outcome:
  assumes "delivers net k inc" and "wc_websocket c = Some k"
    and "assemble 255 [] (inc e) = (a, rest)" and "a \<noteq> Blocked"
  shows "\<exists>e'. inc e' = rest \<and> ws_receive_message net (c, e) =
     (receive_result a, (if loses_connection a then c\<lparr>wc_connected := False\<rparr> else c, e'))"
  by (rule receive_outcome [OF assms])

theorem ws_receive_outcome_witness:
  "ws_receive_message scripted_ws (open_client, [Failure (Std Other_std_exception ''reset'')]) =
     (Throw (Rito Unknown_exception ''reset''), (open_client\<lparr>wc_connected := False\<rparr>, []))"
proof -
  have "assemble 255 [] (map clip [Failure (Std Other_std_exception ''reset'')]) =
      (Failed (Std Other_std_exception ''reset''), [])"
    by (simp add: numeral_eq_Suc)
  then show ?thesis
    using ws_receive_outcome [where net = scripted_ws and k = "()" and inc = "map clip"
        and c = open_client and e = "[Failure (Std Other_std_exception ''reset'')]"]
      scripted_delivers [of "()"]
    by simp
qed

text \<open>A message of up to 255 frames, the last of them the only one with FIN, is returned whole: the
  payloads in order. The connection stays up and what follows the message stays unread.\<close>

theorem ws_receive_complete:
  assumes "delivers net k inc" and "wc_websocket c = Some k"
    and "inc e = gs @ Frame p fl # rest" and "list_all nonfinal gs" and "length gs < 255"
    and "fl AND frame_flag_fin \<noteq> 0"
  shows "\<exists>e'. ws_receive_message net (c, e) = (Ok (concat (map payload gs) @ p), (c, e')) \<and> inc e' = rest"
proof -
  have "assemble 255 [] (inc e) = (Complete (concat (map payload gs) @ p), rest)"
    using assemble_complete [OF assms(4,5,6), of "[]" p rest] assms(3) by simp
  from receive_outcome [OF assms(1,2) this] show ?thesis by auto
qed

theorem ws_receive_complete_witness:
  "\<exists>e'. ws_receive_message scripted_ws (open_client, [Frame ''he'' 0x01, Frame ''llo'' 0x80, Frame ''x'' 0x81]) =
     (Ok ''hello'', (open_client, e')) \<and> map clip e' = [Frame ''x'' 0x81]"
  using ws_receive_complete [where net = scripted_ws and k = "()" and inc = "map clip" and c = open_client
      and e = "[Frame ''he'' 0x01, Frame ''llo'' 0x80, Frame ''x'' 0x81]"
      and gs = "[Frame ''he'' 0x01]" and p = "''llo''" and fl = "0x80" and rest = "[Frame ''x'' 0x81]"]
    scripted_delivers [of "()"]
  by (simp add: max_frame_size_def frame_flag_fin_def)

text \<open>255 frames without FIN are one too many: \<open>Message_exception\<close> with the limit 65536 * 255 in its
  text, computed in 32 bits without overflow. The client stays connected, and the next call reads on
  in the middle of the same message.\<close>

theorem ws_receive_too_long:
  assumes "delivers net k inc" and "wc_websocket c = Some k"
    and "inc e = gs @ rest" and "list_all nonfinal gs" and "length gs = 255"
  shows "\<exists>e'. ws_receive_message net (c, e) =
     (Throw (Rito Message_exception ''Message is longer than 16711680''), (c, e')) \<and> inc e' = rest"
proof -
  have "assemble 255 [] (inc e) = (Too_long, rest)"
    using assemble_too_long [OF assms(4,5)] assms(3) by simp
  from receive_outcome [OF assms(1,2) this] show ?thesis by auto
qed

theorem ws_receive_too_long_witness:
  "\<exists>e'. ws_receive_message scripted_ws (open_client, replicate 255 (Frame ''a'' 0) @ [Frame ''b'' 0x80]) =
     (Throw (Rito Message_exception ''Message is longer than 16711680''), (open_client, e')) \<and>
     map clip e' = [Frame ''b'' 0x80]"
  using ws_receive_too_long [where net = scripted_ws and k = "()" and inc = "map clip" and c = open_client
      and e = "replicate 255 (Frame ''a'' 0) @ [Frame ''b'' 0x80]"
      and gs = "replicate 255 (Frame ''a'' 0)" and rest = "[Frame ''b'' 0x80]"]
    scripted_delivers [of "()"]
  by (simp add: max_frame_size_def list_all_iff)

text \<open>A control frame between the frames of a fragmented message is taken for its end: control
  frames carry FIN (RFC 6455), so a ping (flags 0x89) after the frames \<open>gs\<close> makes \<open>receive_message\<close>
  return their payloads followed by the ping's, and the rest of the message is left for later
  calls.\<close>

theorem ws_ping_ends_message:
  assumes "delivers net k inc" and "wc_websocket c = Some k"
    and "inc e = gs @ Frame ping 0x89 # rest" and "list_all nonfinal gs" and "length gs < 255"
  shows "\<exists>e'. ws_receive_message net (c, e) = (Ok (concat (map payload gs) @ ping), (c, e')) \<and> inc e' = rest"
proof -
  have "(0x89 :: 32 word) AND frame_flag_fin \<noteq> 0" by (simp add: frame_flag_fin_def)
  with assemble_complete [OF assms(4,5), of "0x89" "[]" ping rest] assms(3)
  have "assemble 255 [] (inc e) = (Complete (concat (map payload gs) @ ping), rest)" by simp
  from receive_outcome [OF assms(1,2) this] show ?thesis by auto
qed

theorem ws_ping_ends_message_witness:
  "\<exists>e'. ws_receive_message scripted_ws (open_client, [Frame ''he'' 0x01, Frame ''!'' 0x89, Frame ''llo'' 0x80]) =
     (Ok ''he!'', (open_client, e')) \<and> map clip e' = [Frame ''llo'' 0x80]"
  using ws_ping_ends_message [where net = scripted_ws and k = "()" and inc = "map clip" and c = open_client
      and e = "[Frame ''he'' 0x01, Frame ''!'' 0x89, Frame ''llo'' 0x80]"
      and gs = "[Frame ''he'' 0x01]" and ping = "''!''" and rest = "[Frame ''llo'' 0x80]"]
    scripted_delivers [of "()"]
  by (simp add: max_frame_size_def frame_flag_fin_def)

text \<open>A timeout while receiving is reported as \<open>Websocket_exception\<close> "Websocket client is not
  started", although the client is started; it keeps its socket and stays connected.\<close>

theorem ws_timeout_reported_as_not_started:
  assumes "wc_websocket c = Some k"
    and "ws_receive_frame net k [] e = (Inl (Poco TimeoutException m), e')"
  shows "ws_receive_message net (c, e) =
     (Throw (Rito Websocket_exception ''Websocket client is not started''), (c, e'))"
  using assms
  by (simp add: ws_receive_Some receive_attempt_def receive_handler_def try_catch_def andthen_def on_env_def
      lift_ext_Inl receive_frames.simps [of net k 0] max_frames_per_message_def)

theorem ws_timeout_reported_as_not_started_witness:
  "ws_receive_message scripted_ws (open_client, []) =
     (Throw (Rito Websocket_exception ''Websocket client is not started''), (open_client, []))"
  by (rule ws_timeout_reported_as_not_started [where k = "()" and m = "''Timeout''"])
     (simp_all add: scripted_ws_def)

text \<open>In every state a client can reach, whatever operations ran and however they ended, a client
  that reports itself connected has a socket.\<close>

theorem ws_connected_has_socket:
  assumes "ws_reachable net c"
  shows "ws_is_connected c \<longrightarrow> wc_websocket c \<noteq> None"
proof -
  from assms have "ws_inv c"
  proof (induction rule: ws_reachable.induct)
    case (constructed host port e c e')
    then have "ws_idle c" by (rule new_ws_client_idle)
    then show ?case by (simp add: ws.idle_inv)
  next
    case (credentials c u p)
    then show ?case by (simp add: ws_inv_def ws_set_credentials_def)
  next
    case (started c e r c' e')
    from ws.start_law [OF started(3,2)] show ?case by simp
  next
    case (stopped c e r c' e')
    from ws.stop_law [OF stopped(3,2)] show ?case by simp
  next
    case (sent c m e b c' e')
    from ws.send_law [OF sent(2)] sent(3) show ?case by simp
  next
    case (received c e q c' e')
    from ws.receive_law [OF received(3,2)] show ?case by simp
  qed
  then show ?thesis by (simp add: ws_inv_def ws_is_connected_def)
qed

theorem ws_connected_has_socket_witness:
  "\<exists>c. ws_reachable scripted_ws c \<and> ws_is_connected c \<and> wc_websocket c \<noteq> None"
proof -
  obtain c e where n: "new_ws_client scripted_ws ''127.0.0.1'' 12345 [] = (Ok c, e)"
    by (simp add: new_ws_client_def andthen_def lift_ext_def scripted_ws_def)
  then have c: "ws_reachable scripted_ws c" by (rule ws_reachable.constructed)
  obtain r c' e' where s: "ws_start scripted_ws (c, []) = (r, (c', e'))" by (metis prod.collapse)
  with c have c': "ws_reachable scripted_ws c'" by (rule ws_reachable.started)
  have "ws_is_connected c'"
    using n s by (auto simp: new_ws_client_def ws_start_def andthen_def try_catch_def lift_ext_def
        scripted_ws_def on_env_def set_websocket_def set_connected_def ws_is_connected_def)
  with ws_connected_has_socket [OF c'] c' show ?thesis by blast
qed

text \<open>On a client that was not started, \<open>start\<close> returns with the client connected or throws with
  it not connected, and every standard exception it throws is a \<open>rito::Exception\<close>.\<close>

theorem ws_start_outcome:
  assumes "ws_idle c" and "ws_start net (c, e) = (r, (c', e'))"
  shows "(r = Ok () \<and> ws_is_connected c') \<or>
     (\<exists>x. r = Throw x \<and> \<not> ws_is_connected c' \<and> (is_std_exception x \<longrightarrow> is_rito_exception x))"
proof -
  from assms(1) have "ws_inv c" by (simp add: ws.idle_inv)
  from ws_start_frame [OF this assms(2)] assms(1) show ?thesis
    by (cases r) (auto simp: ws_is_connected_def)
qed

theorem ws_start_outcome_witness:
  "\<exists>r c' e'. ws_start scripted_ws (open_client\<lparr>wc_connected := False, wc_websocket := None\<rparr>, []) = (r, (c', e'))
     \<and> r = Ok () \<and> ws_is_connected c'"
proof -
  let ?c = "open_client\<lparr>wc_connected := False, wc_websocket := None\<rparr>"
  obtain r c' e' where s: "ws_start scripted_ws (?c, []) = (r, (c', e'))" by (metis prod.collapse)
  have "ws_idle ?c" by (simp add: ws_idle_def)
  from ws_start_outcome [OF this s] s show ?thesis
    by (auto simp: ws_start_def andthen_def try_catch_def lift_ext_def
        scripted_ws_def on_env_def set_websocket_def set_connected_def)
qed

text \<open>\<open>stop\<close> on a connected client shuts the socket down once and forgets it; called again, or on a
  client that is not connected, it changes nothing outside the client. After a successful stop the
  client can be started anew.\<close>

theorem ws_stop_outcome:
  assumes "ws_inv c"
  shows "(wc_connected c \<longrightarrow> (\<exists>k. wc_websocket c = Some k \<and> ws_stop net (c, e) =
           (case ws_shutdown net k e of
              (Inr _, e') \<Rightarrow> (Ok (), (c\<lparr>wc_connected := False, wc_websocket := None\<rparr>, e'))
            | (Inl x, e') \<Rightarrow> (Throw x, (c\<lparr>wc_connected := False\<rparr>, e'))))) \<and>
         (\<not> wc_connected c \<longrightarrow> ws_stop net (c, e) = (Ok (), (c\<lparr>wc_websocket := None\<rparr>, e)))"
  using assms
  by (auto simp: ws_inv_def ws_stop_def andthen_def on_env_def lift_ext_def set_connected_def
      set_websocket_def split: option.split prod.split sum.split)

theorem ws_stop_outcome_witness:
  "ws_stop scripted_ws (open_client, []) =
     (Ok (), (open_client\<lparr>wc_connected := False, wc_websocket := None\<rparr>, []))"
  using ws_stop_outcome [of open_client scripted_ws "[]"]
  by (simp add: ws_inv_def scripted_ws_def)

end
