(* ===== verification/Lcu_Websocket.thy ===== *)
theory Lcu_Websocket
  imports Https_Websocket Lcu_Params
begin

text \<open>
  \<open>src/lcu_websocket_handler.cpp\<close>: the handler that keeps a websocket connection to the League
  client, reports connection changes and messages to callbacks, and runs the polling loop. The
  state has the class's fields, the environment of POCO and the process handler (\<open>outside\<close>) and the
  user's program state that the callbacks change (\<open>user\<close>). Each block under \<open>m_socket_mutex\<close> is one
  operation here; \<open>Lcu_Websocket_Threads\<close> interleaves them.
\<close>

subsection \<open>State\<close>

record ('e, 'n, 'k, 'w) ws_handler =
  m_websocket :: "('n, 'k) ws_client option"
  m_is_state_connected :: bool
  m_stop :: bool
  m_on_message_received :: "'w message_callback option"
  m_on_connected :: "'w connection_callback option"
  m_on_disconnected :: "'w connection_callback option"
  outside :: 'e
  user :: 'w

definition lcu_websocket_handler :: "'e \<Rightarrow> 'w \<Rightarrow> ('e, 'n, 'k, 'w) ws_handler" where
  "lcu_websocket_handler e w =
     \<lparr>m_websocket = None, m_is_state_connected = False, m_stop = False,
      m_on_message_received = None, m_on_connected = None, m_on_disconnected = None,
      outside = e, user = w\<rparr>"

definition register_message_callback ::
  "'w message_callback option \<Rightarrow> ('e, 'n, 'k, 'w) ws_handler \<Rightarrow> ('e, 'n, 'k, 'w) ws_handler" where
  "register_message_callback f s = s\<lparr>m_on_message_received := f\<rparr>"

definition register_on_connected_callback ::
  "'w connection_callback option \<Rightarrow> ('e, 'n, 'k, 'w) ws_handler \<Rightarrow> ('e, 'n, 'k, 'w) ws_handler" where
  "register_on_connected_callback f s = s\<lparr>m_on_connected := f\<rparr>"

definition register_on_disconnected_callback ::
  "'w connection_callback option \<Rightarrow> ('e, 'n, 'k, 'w) ws_handler \<Rightarrow> ('e, 'n, 'k, 'w) ws_handler" where
  "register_on_disconnected_callback f s = s\<lparr>m_on_disconnected := f\<rparr>"

subsection \<open>Calls into the client, the environment and the user's code\<close>

text \<open>\<open>m_websocket->...\<close>: undefined behaviour when there is no client.\<close>

definition on_socket ::
  "(('n, 'k) ws_client \<times> 'e, 'a) cpp \<Rightarrow> (('e, 'n, 'k, 'w) ws_handler, 'a) cpp" where
  "on_socket m = (\<lambda>s. case m_websocket s of
       None \<Rightarrow> (Abort Null_dereference, s)
     | Some c \<Rightarrow> (case m (c, outside s) of (r, (c', e')) \<Rightarrow> (r, s\<lparr>m_websocket := Some c', outside := e'\<rparr>)))"

definition on_outside :: "('e, 'a) cpp \<Rightarrow> (('e, 'n, 'k, 'w) ws_handler, 'a) cpp" where
  "on_outside m = (\<lambda>s. case m (outside s) of (r, e') \<Rightarrow> (r, s\<lparr>outside := e'\<rparr>))"

text \<open>\<open>if (callback) { callback(...); }\<close>\<close>

definition on_user :: "('w, unit) ext option \<Rightarrow> (('e, 'n, 'k, 'w) ws_handler, unit) cpp" where
  "on_user f = (\<lambda>s. case f of
       None \<Rightarrow> (Ok (), s)
     | Some g \<Rightarrow> (case lift_ext g (user s) of (r, w') \<Rightarrow> (r, s\<lparr>user := w'\<rparr>)))"

text \<open>\<open>m_websocket.reset()\<close>: the pointer becomes null, then the client is destroyed.\<close>

definition reset_websocket :: "('e, 'n, 'k) poco_ws \<Rightarrow> (('e, 'n, 'k, 'w) ws_handler, unit) cpp" where
  "reset_websocket net = (\<lambda>s. case m_websocket s of
       None \<Rightarrow> (Ok (), s)
     | Some c \<Rightarrow> (case ws_destroy net (c, outside s) of
          (r, (c', e')) \<Rightarrow> (r, s\<lparr>m_websocket := None, outside := e'\<rparr>)))"

subsection \<open>The handler's operations\<close>

definition is_connected :: "('e, 'n, 'k, 'w) ws_handler \<Rightarrow> bool" where
  "is_connected s = (case m_websocket s of None \<Rightarrow> False | Some c \<Rightarrow> ws_is_connected c)"

text \<open>The parts of \<open>reconnect\<close>: a client that is not connected is dropped; a new one is made and given the
  credentials.\<close>

definition drop_dead_client :: "('e, 'n, 'k) poco_ws \<Rightarrow> (('e, 'n, 'k, 'w) ws_handler, unit) cpp" where
  "drop_dead_client net = (\<lambda>s. case m_websocket s of
       Some c \<Rightarrow> if \<not> ws_is_connected c then reset_websocket net s else ret () s
     | None \<Rightarrow> ret () s)"

definition create_client ::
  "('e, 'n, 'k) poco_ws \<Rightarrow> lcu_parameters \<Rightarrow> (('e, 'n, 'k, 'w) ws_handler, unit) cpp" where
  "create_client net lcu_client_parameters =
     andthen (on_outside (new_ws_client net ''127.0.0.1'' (app_port lcu_client_parameters))) (\<lambda>c.
     andthen (modify (\<lambda>s. s\<lparr>m_websocket := Some c\<rparr>)) (\<lambda>_.
     on_socket (modify (\<lambda>(c, e).
       (ws_set_credentials ''riot'' (remoting_auth_token lcu_client_parameters) c, e)))))"

definition reconnect ::
  "('e, 'n, 'k) poco_ws \<Rightarrow> ('e, lcu_parameters) ext \<Rightarrow> (('e, 'n, 'k, 'w) ws_handler, unit) cpp" where
  "reconnect net get_params =
     andthen (drop_dead_client net) (\<lambda>_ s.
       if m_websocket s = None
       then andthen (on_outside (lift_ext get_params)) (\<lambda>lcu_client_parameters.
            andthen (create_client net lcu_client_parameters) (\<lambda>_.
            on_socket (ws_start net))) s
       else ret () s)"

definition notify_connection_state_changed :: "bool \<Rightarrow> (('e, 'n, 'k, 'w) ws_handler, unit) cpp" where
  "notify_connection_state_changed connected =
     andthen
       (\<lambda>s. if connected \<and> \<not> m_is_state_connected s then on_user (m_on_connected s) s
            else if \<not> connected \<and> m_is_state_connected s then on_user (m_on_disconnected s) s
            else ret () s)
       (\<lambda>_. modify (\<lambda>s. s\<lparr>m_is_state_connected := connected\<rparr>))"

definition receive_message :: "('e, 'n, 'k) poco_ws \<Rightarrow> (('e, 'n, 'k, 'w) ws_handler, unit) cpp" where
  "receive_message net =
     try_catch
       (andthen (on_socket (ws_receive_message net)) (\<lambda>response s.
          on_user (map_option (\<lambda>f. f response) (m_on_message_received s)) s))
       (\<lambda>_. ret ())"

text \<open>The handler of the \<open>catch\<close> sleeps for a second.\<close>

definition event_loop_delay :: nat where
  "event_loop_delay = 1"

definition sleep_for :: "('e, 'n, 'k) poco_ws \<Rightarrow> nat \<Rightarrow> (('e, 'n, 'k, 'w) ws_handler, unit) cpp" where
  "sleep_for net delay = modify (\<lambda>s. s\<lparr>outside := ws_sleep_for net delay (outside s)\<rparr>)"

definition reconnect_and_notify ::
  "('e, 'n, 'k) poco_ws \<Rightarrow> ('e, lcu_parameters) ext \<Rightarrow> (('e, 'n, 'k, 'w) ws_handler, unit) cpp" where
  "reconnect_and_notify net get_params =
     andthen (notify_connection_state_changed False) (\<lambda>_.
     try_catch
       (andthen (reconnect net get_params) (\<lambda>_. notify_connection_state_changed True))
       (\<lambda>_. sleep_for net event_loop_delay))"

text \<open>One round of the loop; \<open>True\<close> is \<open>break\<close>.\<close>

definition loop_body ::
  "('e, 'n, 'k) poco_ws \<Rightarrow> ('e, lcu_parameters) ext \<Rightarrow> (('e, 'n, 'k, 'w) ws_handler, bool) cpp" where
  "loop_body net get_params = (\<lambda>s.
     if m_stop s
     then andthen (reset_websocket net) (\<lambda>_.
          andthen (notify_connection_state_changed False) (\<lambda>_. ret True)) s
     else if is_connected s
     then andthen (receive_message net) (\<lambda>_. ret False) s
     else andthen (reconnect_and_notify net get_params) (\<lambda>_. ret False) s)"

text \<open>
  The loop over a list of rounds. The entry of a round says whether another thread has executed
  \<open>m_stop = true\<close> since the last round. \<open>Ok True\<close>: the loop has ended; \<open>Ok False\<close>: it still runs
  after the given rounds.
\<close>

fun main_loop ::
  "('e, 'n, 'k) poco_ws \<Rightarrow> ('e, lcu_parameters) ext \<Rightarrow> bool list \<Rightarrow> (('e, 'n, 'k, 'w) ws_handler, bool) cpp" where
  "main_loop net get_params [] = ret False"
| "main_loop net get_params (b # bs) =
     andthen (modify (\<lambda>s. if b then s\<lparr>m_stop := True\<rparr> else s)) (\<lambda>_.
     andthen (loop_body net get_params) (\<lambda>broke.
     if broke then ret True else main_loop net get_params bs))"

definition run ::
  "('e, 'n, 'k) poco_ws \<Rightarrow> ('e, lcu_parameters) ext \<Rightarrow> bool list \<Rightarrow> (('e, 'n, 'k, 'w) ws_handler, bool) cpp" where
  "run net get_params stops =
     no_except (andthen (modify (\<lambda>s. s\<lparr>m_stop := False\<rparr>)) (\<lambda>_. main_loop net get_params stops))"

definition stop :: "('e, 'n, 'k) poco_ws \<Rightarrow> (('e, 'n, 'k, 'w) ws_handler, unit) cpp" where
  "stop net =
     no_except (andthen (modify (\<lambda>s. s\<lparr>m_stop := True\<rparr>)) (\<lambda>_ s.
       if is_connected s
       then andthen (on_socket (ws_send_message net ''Exit'')) (\<lambda>_. ret ()) s
       else ret () s))"

definition send_message :: "('e, 'n, 'k) poco_ws \<Rightarrow> string \<Rightarrow> (('e, 'n, 'k, 'w) ws_handler, bool) cpp" where
  "send_message net message =
     no_except (\<lambda>s. if is_connected s then on_socket (ws_send_message net message) s else ret False s)"

text \<open>The destructor: \<open>stop()\<close>, then the members, the client among them.\<close>

definition destroy_handler :: "('e, 'n, 'k) poco_ws \<Rightarrow> (('e, 'n, 'k, 'w) ws_handler, unit) cpp" where
  "destroy_handler net = no_except (andthen (stop net) (\<lambda>_. reset_websocket net))"

subsection \<open>The invariant\<close>

definition handler_inv :: "('e, 'n, 'k, 'w) ws_handler \<Rightarrow> bool" where
  "handler_inv s \<longleftrightarrow> (\<forall>c. m_websocket s = Some c \<longrightarrow> ws_inv c)"

text \<open>An operation on the connection: it changes the client and the environment only.\<close>

definition only_socket :: "('e, 'n, 'k, 'w) ws_handler \<Rightarrow> ('e, 'n, 'k, 'w) ws_handler \<Rightarrow> bool" where
  "only_socket s t \<longleftrightarrow>
     m_is_state_connected t = m_is_state_connected s \<and> m_stop t = m_stop s \<and> user t = user s \<and>
     m_on_message_received t = m_on_message_received s \<and> m_on_connected t = m_on_connected s \<and>
     m_on_disconnected t = m_on_disconnected s"

lemma sleep_for_apply [simp]:
  "sleep_for net delay s = (Ok (), s\<lparr>outside := ws_sleep_for net delay (outside s)\<rparr>)"
  by (simp add: sleep_for_def)

text \<open>What happens outside changes neither.\<close>

lemma outside_handler_inv [simp]: "handler_inv (s\<lparr>outside := e\<rparr>) = handler_inv s"
  by (simp add: handler_inv_def)

lemma outside_is_connected [simp]: "is_connected (s\<lparr>outside := e\<rparr>) = is_connected s"
  by (simp add: is_connected_def)

lemma only_socket_order: "reflp only_socket" "transp only_socket"
  by (auto simp: only_socket_def intro!: reflpI transpI)

lemma on_outside_only_socket: "keeps only_socket (on_outside m)"
  by (rule keepsI) (auto simp: only_socket_def on_outside_def split: prod.split)

lemma on_socket_only_socket: "keeps only_socket (on_socket m)"
  by (rule keepsI) (auto simp: only_socket_def on_socket_def split: prod.split option.split)

lemma reset_websocket_only_socket: "keeps only_socket (reset_websocket net)"
  by (rule keepsI) (auto simp: only_socket_def reset_websocket_def split: prod.split option.split)

lemma on_socket_Some:
  "m_websocket s = Some c \<Longrightarrow> m (c, outside s) = (r, (c', e')) \<Longrightarrow>
     on_socket m s = (r, s\<lparr>m_websocket := Some c', outside := e'\<rparr>)"
  by (simp add: on_socket_def)

lemma reset_disconnected:
  assumes "handler_inv s" and "\<not> is_connected s"
  shows "reset_websocket net s = (Ok (), s\<lparr>m_websocket := None\<rparr>)"
proof (cases "m_websocket s")
  case (Some c)
  with assms have "ws_inv c" "\<not> ws_is_connected c" by (simp_all add: handler_inv_def is_connected_def)
  then obtain c' where "ws_destroy net (c, outside s) = (Ok (), (c', outside s))"
    unfolding ws_destroy_def using ws.destroy_quiet [of c net "outside s"] by auto
  with Some show ?thesis by (simp add: reset_websocket_def)
qed (simp add: reset_websocket_def)

lemma reset_websocket_None: "reset_websocket net s = (r, t) \<Longrightarrow> m_websocket t = None"
  by (auto simp: reset_websocket_def split: option.splits prod.splits)

text \<open>A new client, given credentials and started: connected exactly if \<open>start\<close> returns.\<close>

lemma start_new_client:
  assumes "ws_idle c" and "m_websocket s = Some c" and "ws_start net (c, outside s) = (r, (c', e'))"
  shows "on_socket (ws_start net) s = (r, s\<lparr>m_websocket := Some c', outside := e'\<rparr>) \<and>
     \<not> is_abort r \<and> ws_inv c' \<and> (ws_is_connected c' \<longleftrightarrow> is_ok r)"
  using on_socket_Some [of s c "ws_start net", OF assms(2,3)] ws_start_law [OF _ assms(3)]
    ws.idle_inv [OF assms(1)] assms(1)
  by simp

text \<open>The client that \<open>reconnect\<close> starts.\<close>

definition lcu_client :: "lcu_parameters \<Rightarrow> 'n \<Rightarrow> ('n, 'k) ws_client" where
  "lcu_client p n =
     \<lparr>wc_connected = False, wc_host = ''127.0.0.1'', wc_port = app_port p, wc_session = n,
      wc_credentials = (''riot'', remoting_auth_token p), wc_request = [(''riot'', remoting_auth_token p)],
      wc_websocket = None\<rparr>"

lemma lcu_client_idle: "ws_idle (lcu_client p n)"
  by (simp add: lcu_client_def ws_idle_def)

lemma reconnect_connected: "is_connected s \<Longrightarrow> reconnect net get_params s = (Ok (), s)"
  by (auto simp: reconnect_def drop_dead_client_def is_connected_def andthen_def split: option.splits)

lemma drop_dead_connected: "is_connected s \<Longrightarrow> drop_dead_client net s = (Ok (), s)"
  by (auto simp: drop_dead_client_def is_connected_def split: option.splits)

lemma drop_dead_disconnected:
  assumes "handler_inv s" and "\<not> is_connected s"
  shows "drop_dead_client net s = (Ok (), s\<lparr>m_websocket := None\<rparr>)"
  using reset_disconnected [OF assms, of net] assms(2)
  by (auto simp: drop_dead_client_def is_connected_def split: option.splits)

lemma create_client_eq:
  "create_client net p s = (case ws_session net ''127.0.0.1'' (app_port p) (outside s) of
      (Inl x, e) \<Rightarrow> (Throw x, s\<lparr>outside := e\<rparr>)
    | (Inr n, e) \<Rightarrow> (Ok (), s\<lparr>m_websocket := Some (lcu_client p n), outside := e\<rparr>))"
  by (simp add: create_client_def andthen_def on_outside_def lift_ext_def new_ws_client_def on_socket_def
      ws_set_credentials_def lcu_client_def split: prod.split sum.split)

lemma reconnect_disconnected:
  assumes "handler_inv s" and "\<not> is_connected s"
  shows "reconnect net get_params s = (case get_params (outside s) of
      (Inl x, e) \<Rightarrow> (Throw x, s\<lparr>m_websocket := None, outside := e\<rparr>)
    | (Inr p, e) \<Rightarrow> (case ws_session net ''127.0.0.1'' (app_port p) e of
         (Inl x, e') \<Rightarrow> (Throw x, s\<lparr>m_websocket := None, outside := e'\<rparr>)
       | (Inr n, e') \<Rightarrow> on_socket (ws_start net) (s\<lparr>m_websocket := Some (lcu_client p n), outside := e'\<rparr>)))"
proof -
  from drop_dead_disconnected [OF assms, of net] show ?thesis
    by (simp add: reconnect_def andthen_def on_outside_def lift_ext_def create_client_eq split: prod.split sum.split)
qed

lemma reconnect_frame:
  assumes "handler_inv s" and "reconnect net get_params s = (r, t)"
  shows "only_socket s t \<and> handler_inv t \<and> \<not> is_abort r \<and> (is_connected t \<longleftrightarrow> is_ok r)"
proof (cases "is_connected s")
  case True
  with assms show ?thesis by (auto simp: reconnect_connected only_socket_def)
next
  case False
  note eq = reconnect_disconnected [OF assms(1) False, of net get_params]
  obtain q e where gp: "get_params (outside s) = (q, e)" by (metis prod.collapse)
  show ?thesis
  proof (cases q)
    case (Inl x)
    with gp eq assms(2) show ?thesis by (auto simp: only_socket_def handler_inv_def is_connected_def)
  next
    case (Inr p)
    obtain q' e' where se: "ws_session net ''127.0.0.1'' (app_port p) e = (q', e')" by (metis prod.collapse)
    show ?thesis
    proof (cases q')
      case (Inl x)
      with gp Inr se eq assms(2) show ?thesis
        by (auto simp: only_socket_def handler_inv_def is_connected_def)
    next
      case n: (Inr n)
      let ?s = "s\<lparr>m_websocket := Some (lcu_client p n), outside := e'\<rparr>"
      obtain w c' e'' where st: "ws_start net (lcu_client p n, outside ?s) = (w, (c', e''))"
        by (metis prod.collapse)
      from start_new_client [OF lcu_client_idle _ st] gp Inr se n eq assms(2) show ?thesis
        by (auto simp: only_socket_def handler_inv_def is_connected_def)
    qed
  qed
qed

text \<open>What a call of user code does to the handler.\<close>

lemma on_user_apply:
  "on_user f s = (case f of None \<Rightarrow> (Ok (), s)
     | Some g \<Rightarrow> (case g (user s) of
          (Inl x, w) \<Rightarrow> (Throw x, s\<lparr>user := w\<rparr>)
        | (Inr _, w) \<Rightarrow> (Ok (), s\<lparr>user := w\<rparr>)))"
  by (simp add: on_user_def lift_ext_def split: option.split prod.split sum.split)

lemma on_user_frame:
  assumes "on_user f s = (r, t)"
  shows "t = s\<lparr>user := user t\<rparr> \<and> \<not> is_abort r"
  using assms by (auto simp: on_user_apply split: option.splits prod.splits sum.splits)

lemma receive_message_frame:
  assumes "handler_inv s" and "m_websocket s \<noteq> None" and "receive_message net s = (r, t)"
  shows "r = Ok () \<and> handler_inv t \<and> m_is_state_connected t = m_is_state_connected s \<and>
     m_stop t = m_stop s \<and> m_on_message_received t = m_on_message_received s \<and>
     m_on_connected t = m_on_connected s \<and> m_on_disconnected t = m_on_disconnected s \<and>
     (is_connected t \<longrightarrow> is_connected s) \<and> m_websocket t \<noteq> None \<and>
     (user t = user s \<or> (\<exists>f m x. m_on_message_received s = Some f \<and> f m (user s) = (x, user t)))"
proof -
  from assms(2) obtain c where c: "m_websocket s = Some c" by blast
  with assms(1) have inv: "ws_inv c" by (simp add: handler_inv_def)
  obtain q c' e' where rc: "ws_receive_message net (c, outside s) = (q, (c', e'))" by (metis prod.collapse)
  from ws_receive_law [OF inv rc] have c': "ws_inv c'" "\<not> is_abort q" "ws_is_connected c' \<longrightarrow> ws_is_connected c"
    by auto
  have os: "on_socket (ws_receive_message net) s = (q, s\<lparr>m_websocket := Some c', outside := e'\<rparr>)"
    using on_socket_Some [of s c "ws_receive_message net", OF c rc] .
  show ?thesis
    using assms(3) c c' os
    by (cases q) (auto simp: receive_message_def try_catch_def andthen_def on_user_apply handler_inv_def
        is_connected_def split: option.splits prod.splits sum.splits)
qed

text \<open>How a notification ends: it is quiet when the flag agrees, otherwise the callback runs; the flag
  is set only if it returns.\<close>

lemma notify_quiet:
  "m_is_state_connected s = b \<Longrightarrow> notify_connection_state_changed b s = (Ok (), s)"
  by (cases b) (simp_all add: notify_connection_state_changed_def andthen_def)

lemma notify_changed:
  "m_is_state_connected s = (\<not> b) \<Longrightarrow> notify_connection_state_changed b s =
     (case on_user (if b then m_on_connected s else m_on_disconnected s) s of
        (Ok _, t) \<Rightarrow> (Ok (), t\<lparr>m_is_state_connected := b\<rparr>)
      | (Throw x, t) \<Rightarrow> (Throw x, t)
      | (Abort a, t) \<Rightarrow> (Abort a, t))"
  by (cases b) (simp_all add: notify_connection_state_changed_def andthen_def split: prod.split res.split)

lemma notify_frame:
  assumes "notify_connection_state_changed b s = (r, t)"
  shows "\<not> is_abort r \<and> m_websocket t = m_websocket s \<and> m_stop t = m_stop s \<and>
     m_on_message_received t = m_on_message_received s \<and> m_on_connected t = m_on_connected s \<and>
     m_on_disconnected t = m_on_disconnected s \<and>
     m_is_state_connected t = (if is_ok r then b else m_is_state_connected s)"
proof (cases "m_is_state_connected s = b")
  case True
  with assms show ?thesis by (auto simp: notify_quiet)
next
  case False
  with assms show ?thesis
    by (auto simp: notify_changed on_user_apply split: option.splits prod.splits sum.splits if_splits)
qed

lemma notify_handler_inv:
  "notify_connection_state_changed b s = (r, t) \<Longrightarrow> handler_inv t = handler_inv s \<and> is_connected t = is_connected s"
  using notify_frame [of b s r t] by (simp add: handler_inv_def is_connected_def)

subsection \<open>Sessions, as the user's callbacks see them\<close>

datatype ws_event = Connected | Disconnected | Received string

text \<open>The protocol promised to the user: connections and disconnections alternate, and messages
  come between them. \<open>Some b\<close>: the events are a run of the protocol that ends connected (\<open>b\<close>) or
  not.\<close>

fun session :: "bool \<Rightarrow> ws_event list \<Rightarrow> bool option" where
  "session b [] = Some b"
| "session False (Connected # es) = session True es"
| "session True (Disconnected # es) = session False es"
| "session True (Received m # es) = session True es"
| "session _ _ = None"

lemma session_append:
  "session b (es @ fs) = (case session b es of None \<Rightarrow> None | Some c \<Rightarrow> session c fs)"
  by (induction b es rule: session.induct) simp_all

fun is_received :: "ws_event \<Rightarrow> bool" where
  "is_received (Received m) = True"
| "is_received _ = False"

lemma session_received: "list_all is_received es \<Longrightarrow> session True es = Some True"
proof (induction es)
  case (Cons e es)
  then show ?case by (cases e) simp_all
qed simp

text \<open>While the user's state has the invariant \<open>I\<close>: each call of a connection callback leaves its mark on
  what \<open>tr\<close> reads of the state, and does not throw; a call of the message callback leaves any number
  of \<open>Received\<close> events; and \<open>I\<close> stays.\<close>

definition marks ::
  "('w \<Rightarrow> bool) \<Rightarrow> ('w \<Rightarrow> ws_event list) \<Rightarrow> 'w message_callback \<Rightarrow> 'w connection_callback \<Rightarrow> 'w connection_callback \<Rightarrow> bool" where
  "marks I tr h f g \<longleftrightarrow>
     (\<forall>w. I w \<longrightarrow> fst (f w) = Inr () \<and> I (snd (f w)) \<and> tr (snd (f w)) = tr w @ [Connected]) \<and>
     (\<forall>w. I w \<longrightarrow> fst (g w) = Inr () \<and> I (snd (g w)) \<and> tr (snd (g w)) = tr w @ [Disconnected]) \<and>
     (\<forall>m w. I w \<longrightarrow> I (snd (h m w)) \<and> (\<exists>es. tr (snd (h m w)) = tr w @ es \<and> list_all is_received es))"

definition observed :: "('w \<Rightarrow> bool) \<Rightarrow> ('w \<Rightarrow> ws_event list) \<Rightarrow> ('e, 'n, 'k, 'w) ws_handler \<Rightarrow> bool" where
  "observed I tr s \<longleftrightarrow> (\<exists>h f g. m_on_message_received s = Some h \<and> m_on_connected s = Some f \<and>
     m_on_disconnected s = Some g \<and> marks I tr h f g) \<and> I (user s)"

definition in_session :: "('w \<Rightarrow> bool) \<Rightarrow> ('w \<Rightarrow> ws_event list) \<Rightarrow> ('e, 'n, 'k, 'w) ws_handler \<Rightarrow> bool" where
  "in_session I tr s \<longleftrightarrow> handler_inv s \<and> observed I tr s \<and> (is_connected s \<longrightarrow> m_is_state_connected s) \<and>
     session False (tr (user s)) = Some (m_is_state_connected s)"

text \<open>The same without the tie between the connection and the flag, which is broken inside a round.\<close>

definition tracked :: "('w \<Rightarrow> bool) \<Rightarrow> ('w \<Rightarrow> ws_event list) \<Rightarrow> ('e, 'n, 'k, 'w) ws_handler \<Rightarrow> bool" where
  "tracked I tr s \<longleftrightarrow> handler_inv s \<and> observed I tr s \<and>
     session False (tr (user s)) = Some (m_is_state_connected s)"

lemma outside_in_session [simp]:
  "tracked I tr (s\<lparr>outside := e\<rparr>) = tracked I tr s" "in_session I tr (s\<lparr>outside := e\<rparr>) = in_session I tr s"
  by (simp_all add: tracked_def in_session_def observed_def)

lemma in_session_tracked: "in_session I tr s \<longleftrightarrow> tracked I tr s \<and> (is_connected s \<longrightarrow> m_is_state_connected s)"
  by (auto simp: in_session_def tracked_def)

lemma tracked_only_socket:
  "tracked I tr s \<Longrightarrow> only_socket s t \<Longrightarrow> handler_inv t \<Longrightarrow> tracked I tr t"
  by (simp add: tracked_def only_socket_def observed_def)

lemma notify_tracked:
  assumes "tracked I tr s"
  shows "\<exists>t. notify_connection_state_changed b s = (Ok (), t) \<and> tracked I tr t \<and>
     m_is_state_connected t = b \<and> m_websocket t = m_websocket s"
proof (cases "m_is_state_connected s = b")
  case True
  with assms show ?thesis by (auto simp: notify_quiet)
next
  case False
  define f where "f = (if b then m_on_connected s else m_on_disconnected s)"
  define ev where "ev = (if b then Connected else Disconnected)"
  from assms obtain g where g: "f = Some g" "fst (g (user s)) = Inr ()" "tr (snd (g (user s))) = tr (user s) @ [ev]"
      "I (snd (g (user s)))"
    by (cases b) (auto simp: tracked_def observed_def marks_def f_def ev_def)
  have "session False (tr (user s) @ [ev]) = Some b"
    using assms False by (cases b) (simp_all add: tracked_def session_append ev_def)
  with g assms False show ?thesis
    by (cases "g (user s)")
       (auto simp: notify_changed on_user_apply f_def [symmetric] tracked_def observed_def handler_inv_def)
qed

lemma receive_in_session:
  assumes "in_session I tr s" and "is_connected s"
  shows "\<exists>t. receive_message net s = (Ok (), t) \<and> in_session I tr t"
proof -
  obtain r t where rt: "receive_message net s = (r, t)" by (cases "receive_message net s")
  from assms have "handler_inv s" "m_websocket s \<noteq> None" and flag: "m_is_state_connected s"
    by (auto simp: in_session_def is_connected_def split: option.splits)
  from receive_message_frame [OF this(1,2) rt]
  have r: "r = Ok ()" and t: "handler_inv t" "m_is_state_connected t"
    and cb: "m_on_message_received t = m_on_message_received s" "m_on_connected t = m_on_connected s"
      "m_on_disconnected t = m_on_disconnected s"
    and u: "user t = user s \<or> (\<exists>f m x. m_on_message_received s = Some f \<and> f m (user s) = (x, user t))"
    using flag by auto
  have I: "I (user s)" using assms(1) by (simp add: in_session_def observed_def)
  have "I (user t) \<and> (\<exists>es. tr (user t) = tr (user s) @ es \<and> session True es = Some True)"
    using u
  proof
    assume "\<exists>f m x. m_on_message_received s = Some f \<and> f m (user s) = (x, user t)"
    then obtain f m x where f: "m_on_message_received s = Some f" "f m (user s) = (x, user t)" by blast
    with assms(1) have "\<forall>m w. I w \<longrightarrow> I (snd (f m w)) \<and> (\<exists>es. tr (snd (f m w)) = tr w @ es \<and> list_all is_received es)"
      by (auto simp: in_session_def observed_def marks_def)
    with I obtain es where "tr (snd (f m (user s))) = tr (user s) @ es" "list_all is_received es"
      "I (snd (f m (user s)))" by blast
    with f(2) show ?thesis by (auto simp: session_received)
  qed (simp add: I)
  with assms(1) flag have "session False (tr (user t)) = Some True" "I (user t)"
    by (auto simp: in_session_def session_append)
  with r rt t cb assms(1) show ?thesis by (simp add: in_session_def observed_def)
qed

lemma reconnect_in_session:
  assumes "tracked I tr s" and "\<not> is_connected s"
  shows "\<exists>t. reconnect_and_notify net get_params s = (Ok (), t) \<and> in_session I tr t"
proof -
  from notify_tracked [OF assms(1), of False] obtain t0 where
    n: "notify_connection_state_changed False s = (Ok (), t0)" "tracked I tr t0" "\<not> m_is_state_connected t0"
    by blast
  obtain r t1 where rc: "reconnect net get_params t0 = (r, t1)" by (cases "reconnect net get_params t0")
  from reconnect_frame [OF _ rc] n(2) have t1: "only_socket t0 t1" "handler_inv t1" "\<not> is_abort r"
    "is_connected t1 \<longleftrightarrow> is_ok r"
    by (auto simp: tracked_def)
  from tracked_only_socket [OF n(2) t1(1,2)] have tr1: "tracked I tr t1" .
  from notify_tracked [OF this, of True] obtain t2 where
    n2: "notify_connection_state_changed True t1 = (Ok (), t2)" "tracked I tr t2" "m_is_state_connected t2"
    by blast
  show ?thesis
    using n rc t1 tr1 n2
    by (cases r) (auto simp: reconnect_and_notify_def andthen_def try_catch_def in_session_tracked)
qed

lemma reset_in_session:
  assumes "in_session I tr s"
  shows "\<exists>r t. reset_websocket net s = (r, t) \<and> tracked I tr t \<and> \<not> is_connected t \<and>
     m_is_state_connected t = m_is_state_connected s"
proof -
  obtain r t where rt: "reset_websocket net s = (r, t)" by (cases "reset_websocket net s")
  then have "m_websocket t = None" by (rule reset_websocket_None)
  moreover have "only_socket s t" using reset_websocket_only_socket rt by (rule keeps_resD)
  ultimately show ?thesis
    using assms rt tracked_only_socket [of I tr s t]
    by (auto simp: in_session_tracked handler_inv_def is_connected_def only_socket_def)
qed

lemma loop_body_in_session:
  assumes "in_session I tr s"
  shows "in_session I tr (snd (loop_body net get_params s))"
proof (cases "m_stop s")
  case True
  from reset_in_session [OF assms] obtain r t where
    rt: "reset_websocket net s = (r, t)" "tracked I tr t" "\<not> is_connected t" by blast
  from notify_tracked [OF rt(2), of False] obtain u where
    "notify_connection_state_changed False t = (Ok (), u)" "tracked I tr u" "m_websocket u = m_websocket t" by blast
  with rt True show ?thesis
    by (cases r) (auto simp: loop_body_def andthen_def in_session_tracked is_connected_def)
next
  case False
  show ?thesis
  proof (cases "is_connected s")
    case True
    with receive_in_session [OF assms True, of net] False show ?thesis
      by (auto simp: loop_body_def andthen_def)
  next
    case ic: False
    with assms have "tracked I tr s" by (simp add: in_session_tracked)
    with reconnect_in_session [OF this ic, of net get_params] False ic show ?thesis
      by (auto simp: loop_body_def andthen_def)
  qed
qed

lemma m_stop_in_session [simp]: "in_session I tr (s\<lparr>m_stop := b\<rparr>) = in_session I tr s"
  by (simp add: in_session_def handler_inv_def observed_def is_connected_def)

lemma main_loop_in_session:
  "in_session I tr s \<Longrightarrow> in_session I tr (snd (main_loop net get_params bs s))"
proof (induction bs arbitrary: s)
  case (Cons b bs)
  let ?s = "if b then s\<lparr>m_stop := True\<rparr> else s"
  obtain r t where rt: "loop_body net get_params ?s = (r, t)" by (cases "loop_body net get_params ?s")
  have "in_session I tr ?s" using Cons.prems by simp
  from loop_body_in_session [OF this, of net get_params] have "in_session I tr t" by (simp add: rt)
  with Cons.IH [of t] show ?case using rt by (cases r) (auto simp: andthen_def)
qed simp

text \<open>Sending on a connected handler hands one text frame to POCO and leaves the client alone.\<close>

lemma same_websocket: "m_websocket s = Some c \<Longrightarrow> s\<lparr>m_websocket := Some c, outside := e\<rparr> = s\<lparr>outside := e\<rparr>"
  by (cases s) simp

lemma send_on_socket:
  assumes "handler_inv s" and "is_connected s"
  obtains c k where "m_websocket s = Some c" and "wc_websocket c = Some k" and
    "on_socket (ws_send_message net m) s =
      (case ws_send_frame net k m (word_of_nat (length m)) frame_text (outside s) of
         (Inr _, e) \<Rightarrow> (Ok True, s\<lparr>outside := e\<rparr>)
       | (Inl x, e) \<Rightarrow> (Throw x, s\<lparr>outside := e\<rparr>))"
proof -
  from assms(2) obtain c where c: "m_websocket s = Some c" "ws_is_connected c"
    by (auto simp: is_connected_def split: option.splits)
  with assms(1) obtain k where "wc_websocket c = Some k"
    by (auto simp: handler_inv_def ws_inv_def ws_is_connected_def)
  with c show thesis
    by (intro that [of c k])
       (auto simp: on_socket_def ws_send_message_def andthen_def on_env_def lift_ext_def same_websocket
         split: prod.split sum.split)
qed

lemma send_in_session:
  "in_session I tr s \<Longrightarrow> is_connected s \<Longrightarrow> in_session I tr (snd (on_socket (ws_send_message net m) s))"
  by (rule send_on_socket [of s net m]) (auto simp: in_session_def [of I tr s] split: prod.split sum.split)

subsection \<open>Calls on a handler\<close>

text \<open>
  What a program can ask of a handler once its callbacks are registered: \<open>run\<close> (with the stops
  other threads request between its rounds), \<open>stop\<close>, \<open>send_message\<close>.
\<close>

datatype handler_call = Run "bool list" | Stop | Send string

fun perform ::
  "('e, 'n, 'k) poco_ws \<Rightarrow> ('e, lcu_parameters) ext \<Rightarrow> handler_call \<Rightarrow>
     ('e, 'n, 'k, 'w) ws_handler \<Rightarrow> ('e, 'n, 'k, 'w) ws_handler" where
  "perform net get_params (Run bs) s = snd (run net get_params bs s)"
| "perform net get_params Stop s = snd (stop net s)"
| "perform net get_params (Send m) s = snd (send_message net m s)"

lemma perform_in_session: "in_session I tr s \<Longrightarrow> in_session I tr (perform net get_params call s)"
proof (cases call)
  case (Run bs)
  then show "in_session I tr s \<Longrightarrow> ?thesis"
    using main_loop_in_session [of I tr "s\<lparr>m_stop := False\<rparr>" net get_params bs] by (simp add: run_def)
next
  case Stop
  then show "in_session I tr s \<Longrightarrow> ?thesis"
    using send_in_session [of I tr "s\<lparr>m_stop := True\<rparr>" net "''Exit''"]
    by (auto simp: stop_def andthen_def split: prod.splits res.splits)
next
  case (Send m)
  then show "in_session I tr s \<Longrightarrow> ?thesis"
    using send_in_session [of I tr s net m] by (auto simp: send_message_def)
qed

lemma performs_in_session: "in_session I tr s \<Longrightarrow> in_session I tr (fold (perform net get_params) calls s)"
  by (induction calls arbitrary: s) (simp_all add: perform_in_session)

text \<open>A new handler with its callbacks.\<close>

definition with_callbacks ::
  "'w message_callback option \<Rightarrow> 'w connection_callback option \<Rightarrow> 'w connection_callback option \<Rightarrow>
     ('e, 'n, 'k, 'w) ws_handler \<Rightarrow> ('e, 'n, 'k, 'w) ws_handler" where
  "with_callbacks h f g s = register_message_callback h
     (register_on_connected_callback f (register_on_disconnected_callback g s))"

lemma new_in_session:
  assumes "marks I tr h f g" and "I w" and "tr w = []"
  shows "in_session I tr (with_callbacks (Some h) (Some f) (Some g) (lcu_websocket_handler e w))"
  using assms
  by (simp add: in_session_def with_callbacks_def register_message_callback_def handler_inv_def is_connected_def
      observed_def register_on_connected_callback_def register_on_disconnected_callback_def
      lcu_websocket_handler_def)

subsection \<open>The sender contract\<close>

text \<open>What \<open>Lcu_wamp_handler\<close> relies on when it hands a text to \<open>send_message\<close>.\<close>

locale message_sender =
  fixes inv connected :: "'s \<Rightarrow> bool" and send :: "string \<Rightarrow> ('s, bool) cpp" and delivered :: "string \<Rightarrow> 's \<Rightarrow> bool"
  assumes offline: "\<not> connected s \<Longrightarrow> send m s = (Ok False, s)"
    and online: "inv s \<Longrightarrow> connected s \<Longrightarrow> \<not> delivered m s \<Longrightarrow> is_abort (fst (send m s))"
    and online_sent: "inv s \<Longrightarrow> connected s \<Longrightarrow> delivered m s \<Longrightarrow> fst (send m s) = Ok True"
    and send_inv: "inv s \<Longrightarrow> inv (snd (send m s)) \<and> connected (snd (send m s)) = connected s"
begin

lemma never_throws: "inv s \<Longrightarrow> \<not> is_throw (fst (send m s))"
  using offline [of s m] online [of s m] online_sent [of s m]
  by (cases "connected s"; cases "delivered m s"; cases "fst (send m s)") simp_all

text \<open>The result, when there is one, tells whether the handler was connected.\<close>

lemma result_is_connected: "inv s \<Longrightarrow> send m s = (Ok b, t) \<Longrightarrow> b = connected s"
  using offline [of s m] online [of s m] online_sent [of s m]
  by (cases "connected s"; cases "delivered m s") auto

text \<open>A list of messages, one after the other.\<close>

lemma stays_connected:
  "inv s \<Longrightarrow> connected (fold (\<lambda>m s. snd (send m s)) ms s) = connected s"
proof (induction ms arbitrary: s)
  case (Cons m ms)
  with send_inv [of s m] show ?case by simp
qed simp

end

subsection \<open>The loop without assumptions on the callbacks\<close>

lemma reset_websocket_frame:
  assumes "handler_inv s" and "reset_websocket net s = (r, t)"
  shows "only_socket s t \<and> m_websocket t = None \<and> \<not> is_throw r \<and> (\<forall>b. r = Abort b \<longrightarrow> (\<exists>x. b = Terminate x))"
proof -
  have "only_socket s t" using reset_websocket_only_socket assms(2) by (rule keeps_resD)
  moreover have "\<not> is_throw r" "\<forall>b. r = Abort b \<longrightarrow> (\<exists>x. b = Terminate x)"
    using assms ws.destroy_terminates [of _ net]
    by (auto simp: reset_websocket_def ws_destroy_def handler_inv_def no_except_def
        dest: ws_stop_law split: option.splits prod.splits res.splits)
  ultimately show ?thesis using reset_websocket_None [OF assms(2)] by blast
qed

lemma reconnect_and_notify_frame:
  assumes "handler_inv s" and "reconnect_and_notify net get_params s = (r, t)"
  shows "handler_inv t \<and> m_stop t = m_stop s \<and> m_on_disconnected t = m_on_disconnected s \<and> \<not> is_abort r \<and>
     (is_throw r \<longrightarrow> notify_connection_state_changed False s = (r, t))"
proof -
  obtain r0 t0 where n: "notify_connection_state_changed False s = (r0, t0)"
    by (cases "notify_connection_state_changed False s")
  note n' = notify_frame [OF n] notify_handler_inv [OF n]
  show ?thesis
  proof (cases r0)
    case (Ok a)
    obtain r1 t1 where rc: "reconnect net get_params t0 = (r1, t1)" by (cases "reconnect net get_params t0")
    from reconnect_frame [OF _ rc] n' assms(1)
    have t1: "only_socket t0 t1" "handler_inv t1" "\<not> is_abort r1" by simp_all
    obtain r2 t2 where n2: "notify_connection_state_changed True t1 = (r2, t2)"
      by (cases "notify_connection_state_changed True t1")
    note n2' = notify_frame [OF n2] notify_handler_inv [OF n2]
    have eq: "reconnect_and_notify net get_params s = (case r1 of
        Ok v \<Rightarrow> (case r2 of Ok w \<Rightarrow> (Ok (), t2) | Throw x \<Rightarrow> sleep_for net event_loop_delay t2 | Abort b \<Rightarrow> (Abort b, t2))
      | Throw x \<Rightarrow> sleep_for net event_loop_delay t1
      | Abort b \<Rightarrow> (Abort b, t1))"
      by (cases r1; cases r2) (simp_all add: reconnect_and_notify_def andthen_def try_catch_def n Ok rc n2)
    have u: "handler_inv t2" "m_stop t2 = m_stop s" "m_on_disconnected t2 = m_on_disconnected s"
      "m_stop t1 = m_stop s" "m_on_disconnected t1 = m_on_disconnected s" "\<not> is_abort r2"
      using n' n2' t1 by (simp_all add: only_socket_def)
    show ?thesis
      using assms(2) t1(2,3) u unfolding eq by (cases r1; cases r2) auto
  qed (use assms n n' in \<open>auto simp: reconnect_and_notify_def andthen_def\<close>)
qed

lemma loop_body_frame:
  assumes "handler_inv s" and "loop_body net get_params s = (r, t)"
  shows "handler_inv t \<and> m_stop t = m_stop s \<and> m_on_disconnected t = m_on_disconnected s \<and>
     r \<noteq> Ok (\<not> m_stop s) \<and> (\<forall>b. r = Abort b \<longrightarrow> (\<exists>x. b = Terminate x))"
proof (cases "m_stop s")
  case True
  obtain r0 t0 where n: "reset_websocket net s = (r0, t0)" by (cases "reset_websocket net s")
  obtain r1 t1 where n1: "notify_connection_state_changed False t0 = (r1, t1)"
    by (cases "notify_connection_state_changed False t0")
  show ?thesis
    using assms(2) True n n1 reset_websocket_frame [OF assms(1) n] notify_frame [OF n1]
    by (cases r0; cases r1) (auto simp: loop_body_def andthen_def only_socket_def handler_inv_def)
next
  case False
  show ?thesis
  proof (cases "is_connected s")
    case True
    then have "m_websocket s \<noteq> None" by (auto simp: is_connected_def split: option.splits)
    obtain r0 t0 where n: "receive_message net s = (r0, t0)" by (cases "receive_message net s")
    from receive_message_frame [OF assms(1) \<open>m_websocket s \<noteq> None\<close> n] assms(2) False True n show ?thesis
      by (auto simp: loop_body_def andthen_def)
  next
    case ic: False
    obtain r0 t0 where n: "reconnect_and_notify net get_params s = (r0, t0)"
      by (cases "reconnect_and_notify net get_params s")
    from reconnect_and_notify_frame [OF assms(1) n] assms(2) False ic n show ?thesis
      by (cases r0) (auto simp: loop_body_def andthen_def)
  qed
qed

lemma main_loop_frame:
  "handler_inv s \<Longrightarrow> main_loop net get_params bs s = (r, t) \<Longrightarrow>
     handler_inv t \<and> (\<forall>b. r = Abort b \<longrightarrow> (\<exists>x. b = Terminate x)) \<and>
     (r = Ok True \<longrightarrow> m_stop s \<or> True \<in> set bs)"
proof (induction bs arbitrary: s)
  case (Cons b bs)
  let ?s = "if b then s\<lparr>m_stop := True\<rparr> else s"
  obtain r0 t0 where l: "loop_body net get_params ?s = (r0, t0)" by (cases "loop_body net get_params ?s")
  have "handler_inv ?s" using Cons.prems(1) by (simp add: handler_inv_def)
  from loop_body_frame [OF this l] Cons.IH [of t0] Cons.prems(2) l show ?case
    by (cases r0) (auto simp: andthen_def split: if_splits)
qed auto

text \<open>What the two calls from other threads do, when nothing else runs.\<close>

lemma send_message_connected:
  assumes "handler_inv s" and "is_connected s"
  shows "\<exists>c k. m_websocket s = Some c \<and> wc_websocket c = Some k \<and>
     send_message net m s =
       (case ws_send_frame net k m (word_of_nat (length m)) frame_text (outside s) of
          (Inr _, e) \<Rightarrow> (Ok True, s\<lparr>outside := e\<rparr>)
        | (Inl x, e) \<Rightarrow> (Abort (Terminate x), s\<lparr>outside := e\<rparr>))"
proof -
  obtain c k where "m_websocket s = Some c" "wc_websocket c = Some k" and
    so: "on_socket (ws_send_message net m) s =
      (case ws_send_frame net k m (word_of_nat (length m)) frame_text (outside s) of
         (Inr _, e) \<Rightarrow> (Ok True, s\<lparr>outside := e\<rparr>)
       | (Inl x, e) \<Rightarrow> (Throw x, s\<lparr>outside := e\<rparr>))"
    by (rule send_on_socket [OF assms, of net m])
  moreover have "send_message net m s =
       (case ws_send_frame net k m (word_of_nat (length m)) frame_text (outside s) of
          (Inr _, e) \<Rightarrow> (Ok True, s\<lparr>outside := e\<rparr>)
        | (Inl x, e) \<Rightarrow> (Abort (Terminate x), s\<lparr>outside := e\<rparr>))"
    using assms(2) so by (simp add: send_message_def no_except_def split: prod.split sum.split)
  ultimately show ?thesis by blast
qed

lemma stop_connected:
  assumes "handler_inv s" and "is_connected s"
  shows "\<exists>c k. m_websocket s = Some c \<and> wc_websocket c = Some k \<and>
     stop net s =
       (case ws_send_frame net k ''Exit'' 4 frame_text (outside s) of
          (Inr _, e) \<Rightarrow> (Ok (), s\<lparr>m_stop := True, outside := e\<rparr>)
        | (Inl x, e) \<Rightarrow> (Abort (Terminate x), s\<lparr>m_stop := True, outside := e\<rparr>))"
proof -
  let ?s = "s\<lparr>m_stop := True\<rparr>"
  from assms have "handler_inv ?s" "is_connected ?s" by (simp_all add: handler_inv_def is_connected_def)
  then obtain c k where "m_websocket ?s = Some c" "wc_websocket c = Some k" and
    so: "on_socket (ws_send_message net ''Exit'') ?s =
      (case ws_send_frame net k ''Exit'' (word_of_nat (length ''Exit'')) frame_text (outside ?s) of
         (Inr _, e) \<Rightarrow> (Ok True, ?s\<lparr>outside := e\<rparr>)
       | (Inl x, e) \<Rightarrow> (Throw x, ?s\<lparr>outside := e\<rparr>))"
    by (rule send_on_socket [of ?s net "''Exit''"])
  then have "m_websocket s = Some c" "wc_websocket c = Some k" by simp_all
  moreover have "stop net s =
       (case ws_send_frame net k ''Exit'' 4 frame_text (outside s) of
          (Inr _, e) \<Rightarrow> (Ok (), s\<lparr>m_stop := True, outside := e\<rparr>)
        | (Inl x, e) \<Rightarrow> (Abort (Terminate x), s\<lparr>m_stop := True, outside := e\<rparr>))"
    using \<open>is_connected ?s\<close> so
    by (simp add: stop_def no_except_def andthen_def split: prod.split sum.split)
  ultimately show ?thesis by blast
qed

lemma not_connected_calls:
  assumes "\<not> is_connected s"
  shows "send_message net m s = (Ok False, s)" "stop net s = (Ok (), s\<lparr>m_stop := True\<rparr>)"
  using assms by (simp_all add: send_message_def stop_def no_except_def is_connected_def)

lemma calls_no_null:
  assumes "handler_inv s"
  shows "fst (stop net s) \<noteq> Abort Null_dereference" "fst (send_message net m s) \<noteq> Abort Null_dereference"
proof -
  show "fst (stop net s) \<noteq> Abort Null_dereference"
  proof (cases "is_connected s")
    case True
    from stop_connected [OF assms this, of net] show ?thesis
      by (elim exE conjE, simp only:) (simp split: prod.split sum.split)
  qed (simp add: not_connected_calls)
  show "fst (send_message net m s) \<noteq> Abort Null_dereference"
  proof (cases "is_connected s")
    case True
    from send_message_connected [OF assms this, of net m] show ?thesis
      by (elim exE conjE, simp only:) (simp split: prod.split sum.split)
  qed (simp add: not_connected_calls)
qed

lemma perform_handler_inv:
  assumes "handler_inv s"
  shows "handler_inv (perform net get_params call s)"
proof (cases call)
  case (Run bs)
  have "handler_inv (s\<lparr>m_stop := False\<rparr>)" using assms by (simp add: handler_inv_def)
  from main_loop_frame [OF this surjective_pairing] Run show ?thesis by (simp add: run_def)
next
  case Stop
  have "\<exists>e. snd (stop net s) = s\<lparr>m_stop := True, outside := e\<rparr>"
    using stop_connected [OF assms, of net] not_connected_calls(2) [of s net]
    by (cases "is_connected s") (fastforce split: prod.splits sum.splits intro: exI [of _ "outside s"])+
  with Stop assms show ?thesis by (auto simp: handler_inv_def)
next
  case (Send m)
  have "\<exists>e. snd (send_message net m s) = s\<lparr>outside := e\<rparr>"
    using send_message_connected [OF assms, of net m] not_connected_calls(1) [of s net m]
    by (cases "is_connected s") (fastforce split: prod.splits sum.splits intro: exI [of _ "outside s"])+
  with Send assms show ?thesis by (auto simp: handler_inv_def)
qed

text \<open>POCO takes the frame for \<open>m\<close> without throwing.\<close>

definition frame_accepted :: "('e, 'n, 'k) poco_ws \<Rightarrow> string \<Rightarrow> ('e, 'n, 'k, 'w) ws_handler \<Rightarrow> bool" where
  "frame_accepted net m s = (case m_websocket s of None \<Rightarrow> False | Some c \<Rightarrow> (case wc_websocket c of
      None \<Rightarrow> False
    | Some k \<Rightarrow> (case ws_send_frame net k m (word_of_nat (length m)) frame_text (outside s) of
         (Inr _, _) \<Rightarrow> True
       | (Inl _, _) \<Rightarrow> False)))"

lemma send_message_accepted:
  assumes "handler_inv s" and "is_connected s"
  shows "\<exists>e. snd (send_message net m s) = s\<lparr>outside := e\<rparr> \<and>
     (if frame_accepted net m s then fst (send_message net m s) = Ok True
      else is_abort (fst (send_message net m s)))"
proof -
  from send_message_connected [OF assms, of net m] obtain c k where c: "m_websocket s = Some c"
    "wc_websocket c = Some k" and eq: "send_message net m s =
       (case ws_send_frame net k m (word_of_nat (length m)) frame_text (outside s) of
          (Inr _, e) \<Rightarrow> (Ok True, s\<lparr>outside := e\<rparr>)
        | (Inl x, e) \<Rightarrow> (Abort (Terminate x), s\<lparr>outside := e\<rparr>))" by blast
  obtain q e where q: "ws_send_frame net k m (word_of_nat (length m)) frame_text (outside s) = (q, e)"
    by (metis prod.collapse)
  with c eq show ?thesis by (cases q) (auto simp: frame_accepted_def)
qed

interpretation sender: message_sender handler_inv is_connected "send_message net" "frame_accepted net"
  for net
proof
  fix s m
  show "\<not> is_connected s \<Longrightarrow> send_message net m s = (Ok False, s)"
    by (rule not_connected_calls(1))
  show "handler_inv s \<Longrightarrow> is_connected s \<Longrightarrow> \<not> frame_accepted net m s \<Longrightarrow> is_abort (fst (send_message net m s))"
    using send_message_accepted [of s net m] by auto
  show "handler_inv s \<Longrightarrow> is_connected s \<Longrightarrow> frame_accepted net m s \<Longrightarrow> fst (send_message net m s) = Ok True"
    using send_message_accepted [of s net m] by auto
  show "handler_inv s \<Longrightarrow> handler_inv (snd (send_message net m s)) \<and>
      is_connected (snd (send_message net m s)) = is_connected s"
    using send_message_accepted [of s net m] not_connected_calls(1) [of s net m]
    by (cases "is_connected s") (auto simp: handler_inv_def is_connected_def)
qed

lemma performs_handler_inv:
  "handler_inv s \<Longrightarrow> handler_inv (fold (perform net get_params) calls s)"
  by (induction calls arbitrary: s) (simp_all add: perform_handler_inv)

lemma ws_start_fields:
  "ws_start net (c, e) = (r, (c', e')) \<Longrightarrow> wc_host c' = wc_host c \<and> wc_port c' = wc_port c \<and>
     wc_credentials c' = wc_credentials c \<and> wc_request c' = wc_request c"
  by (auto simp: ws_start_def andthen_def try_catch_def on_env_def lift_ext_def set_websocket_def
      set_connected_def split: if_splits prod.splits sum.splits exn.splits poco_class.splits)

lemma start_lcu_client:
  assumes "m_websocket s = Some (lcu_client p n)" and "on_socket (ws_start net) s = (Ok (), t)"
  shows "\<exists>c. m_websocket t = Some c \<and> ws_is_connected c \<and> wc_host c = ''127.0.0.1'' \<and>
     wc_port c = app_port p \<and> wc_request c = [(''riot'', remoting_auth_token p)]"
proof -
  obtain r c' e' where st: "ws_start net (lcu_client p n, outside s) = (r, (c', e'))" by (metis prod.collapse)
  from start_new_client [OF lcu_client_idle assms(1) st] ws_start_fields [OF st] assms(2) show ?thesis
    by (auto simp: lcu_client_def)
qed

lemma message_exceptions_swallowed_frame:
  assumes "handler_inv s" and "is_connected s" and "\<not> m_stop s"
  shows "\<exists>t. loop_body net get_params s = (Ok False, t) \<and> handler_inv t \<and> m_websocket t \<noteq> None \<and>
     m_is_state_connected t = m_is_state_connected s \<and>
     m_on_message_received t = m_on_message_received s"
proof -
  have ne: "m_websocket s \<noteq> None" using assms(2) by (auto simp: is_connected_def split: option.splits)
  obtain r t where n: "receive_message net s = (r, t)" by (cases "receive_message net s")
  from receive_message_frame [OF assms(1) ne n] n assms(2,3) show ?thesis
    by (auto simp: loop_body_def andthen_def)
qed

text \<open>The disconnection callback, if there is one, does not throw; nor does POCO's \<open>shutdown\<close>.\<close>

definition disconnect_returns :: "('e, 'n, 'k, 'w) ws_handler \<Rightarrow> bool" where
  "disconnect_returns s \<longleftrightarrow> (\<forall>g w. m_on_disconnected s = Some g \<longrightarrow> fst (g w) = Inr ())"

definition shutdown_returns :: "('e, 'n, 'k) poco_ws \<Rightarrow> bool" where
  "shutdown_returns net \<longleftrightarrow> (\<forall>k e. fst (ws_shutdown net k e) = Inr ())"

lemma notify_returns:
  assumes "disconnect_returns s"
  shows "\<exists>t. notify_connection_state_changed False s = (Ok (), t)"
proof -
  obtain r t where n: "notify_connection_state_changed False s = (r, t)"
    by (cases "notify_connection_state_changed False s")
  show ?thesis
  proof (cases "m_is_state_connected s")
    case True
    show ?thesis
    proof (cases "m_on_disconnected s")
      case (Some g)
      with assms obtain w' where "g (user s) = (Inr (), w')"
        using Some by (metis disconnect_returns_def prod.collapse)
      with True Some show ?thesis by (simp add: notify_changed on_user_apply)
    qed (simp add: True notify_changed on_user_apply)
  qed (simp add: notify_quiet)
qed

lemma reset_returns:
  assumes "handler_inv s" and "shutdown_returns net"
  shows "\<exists>t. reset_websocket net s = (Ok (), t)"
proof (cases "m_websocket s")
  case (Some c)
  with assms(1) have "ws_inv c" by (simp add: handler_inv_def)
  have "\<exists>u. ws_stop net (c, outside s) = (Ok (), u)"
  proof (cases "wc_websocket c")
    case (Some k)
    from assms(2) obtain e' where "ws_shutdown net k (outside s) = (Inr (), e')"
      by (metis shutdown_returns_def prod.collapse)
    with Some show ?thesis
      by (simp add: ws_stop_def andthen_def set_connected_def on_env_def lift_ext_def set_websocket_def)
  qed (simp add: ws_stop_def set_websocket_def andthen_def)
  with Some show ?thesis
    by (auto simp: reset_websocket_def ws_destroy_def no_except_def split: prod.split)
qed (simp add: reset_websocket_def)

lemma loop_body_returns:
  assumes "handler_inv s" and "disconnect_returns s"
    and "shutdown_returns net"
  shows "\<exists>t. loop_body net get_params s = (Ok (m_stop s), t) \<and>
     (m_stop s \<longrightarrow> m_websocket t = None \<and> \<not> m_is_state_connected t)"
proof (cases "m_stop s")
  case True
  from reset_returns [OF assms(1,3)] obtain t where t: "reset_websocket net s = (Ok (), t)" by blast
  note t' = reset_websocket_frame [OF assms(1) t]
  then have "disconnect_returns t"
    using assms(2) by (simp add: only_socket_def disconnect_returns_def)
  from notify_returns [OF this] obtain u where u: "notify_connection_state_changed False t = (Ok (), u)" by blast
  from notify_frame [OF u] t' t u True show ?thesis by (simp add: loop_body_def andthen_def)
next
  case False
  show ?thesis
  proof (cases "is_connected s")
    case True
    then have ne: "m_websocket s \<noteq> None" by (auto simp: is_connected_def split: option.splits)
    obtain r t where n: "receive_message net s = (r, t)" by (cases "receive_message net s")
    from receive_message_frame [OF assms(1) ne n] n False True show ?thesis
      by (simp add: loop_body_def andthen_def)
  next
    case ic: False
    from notify_returns [OF assms(2)] obtain u where u: "notify_connection_state_changed False s = (Ok (), u)"
      by blast
    obtain r t where n: "reconnect_and_notify net get_params s = (r, t)"
      by (cases "reconnect_and_notify net get_params s")
    from reconnect_and_notify_frame [OF assms(1) n] u n False ic show ?thesis
      by (cases r) (auto simp: loop_body_def andthen_def)
  qed
qed

lemma main_loop_ends:
  assumes "shutdown_returns net"
  shows "handler_inv s \<Longrightarrow> \<not> m_stop s \<Longrightarrow>
     disconnect_returns s \<Longrightarrow>
     \<exists>t. main_loop net get_params bs s = (Ok (True \<in> set bs), t) \<and>
       (True \<in> set bs \<longrightarrow> m_websocket t = None \<and> \<not> m_is_state_connected t)"
proof (induction bs arbitrary: s)
  case (Cons b bs)
  let ?s = "if b then s\<lparr>m_stop := True\<rparr> else s"
  have inv: "handler_inv ?s" using Cons.prems(1) by (simp add: handler_inv_def)
  have cb: "disconnect_returns ?s"
    using Cons.prems(3) by (simp add: disconnect_returns_def)
  from loop_body_returns [OF inv cb assms] obtain t where t: "loop_body net get_params ?s = (Ok (m_stop ?s), t)"
    "m_stop ?s \<longrightarrow> m_websocket t = None \<and> \<not> m_is_state_connected t" by blast
  note t' = loop_body_frame [OF inv t(1)]
  show ?case
  proof (cases b)
    case True
    with t show ?thesis by (simp add: andthen_def)
  next
    case False
    with t' Cons.prems have m: "handler_inv t" "\<not> m_stop t" "m_on_disconnected t = m_on_disconnected s" by auto
    with Cons.prems(3) have "disconnect_returns t" by (simp add: disconnect_returns_def)
    with m(1,2) have "\<exists>u. main_loop net get_params bs t = (Ok (True \<in> set bs), u) \<and>
       (True \<in> set bs \<longrightarrow> m_websocket u = None \<and> \<not> m_is_state_connected u)" by (rule Cons.IH)
    with False t Cons.prems(2) show ?thesis by (simp add: andthen_def)
  qed
qed simp

lemma reconnect_result:
  assumes "handler_inv s" and "\<not> is_connected s" and "reconnect net get_params s = (r, t)"
  shows "\<not> is_abort r \<and> (is_connected t \<longleftrightarrow> r = Ok ()) \<and> user t = user s \<and>
     m_is_state_connected t = m_is_state_connected s \<and>
     (r = Ok () \<longrightarrow> (\<exists>p e c. get_params (outside s) = (Inr p, e) \<and> m_websocket t = Some c \<and>
        wc_host c = ''127.0.0.1'' \<and> wc_port c = app_port p \<and>
        wc_request c = [(''riot'', remoting_auth_token p)]))"
proof -
  have start: "\<exists>c. m_websocket t = Some c \<and> wc_host c = ''127.0.0.1'' \<and> wc_port c = app_port p \<and>
      wc_request c = [(''riot'', remoting_auth_token p)]"
    if "on_socket (ws_start net) (s\<lparr>m_websocket := Some (lcu_client p n), outside := e\<rparr>) = (Ok (), t)" for p n e
    using start_lcu_client [OF _ that] by auto
  have "r = Ok () \<longrightarrow> (\<exists>p e c. get_params (outside s) = (Inr p, e) \<and> m_websocket t = Some c \<and>
        wc_host c = ''127.0.0.1'' \<and> wc_port c = app_port p \<and>
        wc_request c = [(''riot'', remoting_auth_token p)])"
    using assms(3) reconnect_disconnected [OF assms(1,2), of net get_params]
    by (auto split: prod.splits sum.splits dest: start)
  with reconnect_frame [OF assms(1,3)] show ?thesis
    by (cases r) (simp_all add: only_socket_def)
qed

subsection \<open>Properties\<close>

definition recorded_message :: "string \<Rightarrow> (ws_event list, unit) ext" where
  "recorded_message m = (\<lambda>w. (Inr (), w @ [Received m]))"

definition recorded :: "ws_event \<Rightarrow> (ws_event list, unit) ext" where
  "recorded ev = (\<lambda>w. (Inr (), w @ [ev]))"

lemma recorded_marks: "marks (\<lambda>w. True) id recorded_message (recorded Connected) (recorded Disconnected)"
  by (simp add: marks_def recorded_message_def recorded_def)

text \<open>The scripted POCO's handler, with a League client that is always found.\<close>

definition found :: "(incoming list, lcu_parameters) ext" where
  "found = (\<lambda>e. (Inr \<lparr>remoting_auth_token = ''tok'', app_port = 12345\<rparr>, e))"

definition open_handler :: "bool \<Rightarrow> 'w connection_callback option \<Rightarrow> 'w connection_callback option \<Rightarrow> 'w \<Rightarrow>
    (incoming list, unit, unit, 'w) ws_handler" where
  "open_handler connected f g w =
     \<lparr>m_websocket = (if connected then Some open_client else None), m_is_state_connected = connected,
      m_stop = False, m_on_message_received = None, m_on_connected = f, m_on_disconnected = g,
      outside = [], user = w\<rparr>"

lemma open_handler_simps [simp]:
  "handler_inv (open_handler b f g w)" "is_connected (open_handler b f g w) = b"
  "m_on_connected (open_handler b f g w) = f" "m_on_disconnected (open_handler b f g w) = g"
  "m_is_state_connected (open_handler b f g w) = b" "user (open_handler b f g w) = w"
  "outside (open_handler b f g w) = []" "\<not> m_stop (open_handler b f g w)"
  "m_websocket (open_handler b f g w) = (if b then Some open_client else None)"
  by (simp_all add: open_handler_def handler_inv_def ws_inv_def is_connected_def ws_is_connected_def)

lemma scripted_shutdown: "shutdown_returns scripted_ws"
  by (simp add: shutdown_returns_def scripted_ws_def)

lemma open_handler_outside: "(open_handler b f g w)\<lparr>outside := []\<rparr> = open_handler b f g w"
  by (simp add: open_handler_def)

text \<open>C2. The callbacks see sessions: with callbacks that leave marks, the connection callbacks not
  throwing, on a new handler and after any calls of \<open>run\<close> (for any number of rounds, with stops
  requested between any of them), \<open>stop\<close> and \<open>send_message\<close>, whatever POCO and the process handler
  answer, connected and disconnected events alternate, beginning with connected, every message comes
  between a connected event and the next disconnected one, and the handler's flag says where in
  that protocol it is.\<close>

theorem ws_session_protocol:
  assumes "marks I tr h f g" and "I w" and "tr w = []"
  shows "let s = fold (perform net get_params) calls
             (with_callbacks (Some h) (Some f) (Some g) (lcu_websocket_handler e w))
         in session False (tr (user s)) = Some (m_is_state_connected s) \<and>
            (is_connected s \<longrightarrow> m_is_state_connected s)"
proof -
  let ?s = "fold (perform net get_params) calls
      (with_callbacks (Some h) (Some f) (Some g) (lcu_websocket_handler e w))"
  have "in_session I tr ?s" by (rule performs_in_session [OF new_in_session [OF assms]])
  then show ?thesis by (simp add: in_session_def)
qed

theorem ws_session_protocol_witness:
  "let s = fold (perform scripted_ws found) [Run [False, False, False], Send ''x'', Stop]
       (with_callbacks (Some recorded_message) (Some (recorded Connected)) (Some (recorded Disconnected))
         (lcu_websocket_handler [Frame ''hi'' 0x81, Frame [] 0] []))
   in session False (user s) = Some (m_is_state_connected s) \<and> (is_connected s \<longrightarrow> m_is_state_connected s)"
  using ws_session_protocol [OF recorded_marks TrueI, of "[]" scripted_ws found
      "[Run [False, False, False], Send ''x'', Stop]" "[Frame ''hi'' 0x81, Frame [] 0]"]
  by simp

text \<open>C20. \<open>reconnect\<close> on a handler that is not connected returns exactly if it leaves a connected
  client, which then is for \<open>127.0.0.1\<close> at the port, and with the user \<open>riot\<close> and the token, that
  the process handler has just reported; otherwise it throws, and never ends the program. The
  user's state and the notification flag are not touched.\<close>

theorem reconnect_outcome:
  assumes "handler_inv s" and "\<not> is_connected s" and "reconnect net get_params s = (r, t)"
  shows "\<not> is_abort r \<and> (is_connected t \<longleftrightarrow> r = Ok ()) \<and> user t = user s \<and>
     m_is_state_connected t = m_is_state_connected s \<and>
     (r = Ok () \<longrightarrow> (\<exists>p e c. get_params (outside s) = (Inr p, e) \<and> m_websocket t = Some c \<and>
        wc_host c = ''127.0.0.1'' \<and> wc_port c = app_port p \<and>
        wc_request c = [(''riot'', remoting_auth_token p)]))"
  by (rule reconnect_result [OF assms])

theorem reconnect_outcome_witness:
  "\<exists>t. reconnect scripted_ws found (open_handler False None None ()) = (Ok (), t) \<and> is_connected t"
proof -
  obtain r t where rt: "reconnect scripted_ws found (open_handler False None None ()) = (r, t)"
    by (metis prod.collapse)
  then have "r = Ok ()"
    by (simp add: reconnect_disconnected on_socket_def found_def scripted_ws_def ws_start_def lcu_client_def
        andthen_def try_catch_def on_env_def lift_ext_def set_websocket_def set_connected_def)
  with reconnect_outcome [OF _ _ rt] rt show ?thesis by simp
qed

text \<open>C15. \<open>run\<close> ends at the first round after a stop request and only there, with the connection gone
  and the flag cleared, provided the disconnection callback does not throw and POCO's \<open>shutdown\<close>
  does not.\<close>

theorem run_ends_exactly_on_stop:
  assumes "handler_inv s" and "disconnect_returns s"
    and "shutdown_returns net"
  shows "\<exists>t. run net get_params bs s = (Ok (True \<in> set bs), t) \<and>
     (True \<in> set bs \<longrightarrow> m_websocket t = None \<and> \<not> m_is_state_connected t)"
proof -
  have "handler_inv (s\<lparr>m_stop := False\<rparr>)" "disconnect_returns (s\<lparr>m_stop := False\<rparr>)"
    using assms(1,2) by (simp_all add: handler_inv_def disconnect_returns_def)
  from main_loop_ends [OF assms(3) this(1) _ this(2), of get_params bs] show ?thesis
    by (auto simp: run_def no_except_def)
qed

theorem run_ends_exactly_on_stop_witness:
  "\<exists>t. run scripted_ws found [False, False, True, False]
       (open_handler True None (Some (recorded Disconnected)) []) = (Ok True, t) \<and>
     m_websocket t = None"
  using run_ends_exactly_on_stop [of "open_handler True None (Some (recorded Disconnected)) []" scripted_ws
      found "[False, False, True, False]"]
    scripted_shutdown
  by (auto simp: disconnect_returns_def recorded_def)

text \<open>\<open>run\<close> does not see a \<open>stop\<close> that came before it: it clears the request, and the loop goes on
  until it is stopped again.\<close>

theorem run_forgets_earlier_stop:
  assumes "handler_inv s"
  shows "fst (run net get_params (replicate n False) (snd (stop net s))) \<noteq> Ok True"
proof -
  have "handler_inv (perform net get_params Stop s)" using assms by (rule perform_handler_inv)
  then have inv: "handler_inv ((snd (stop net s))\<lparr>m_stop := False\<rparr>)" by (simp add: handler_inv_def)
  obtain r t where "main_loop net get_params (replicate n False) ((snd (stop net s))\<lparr>m_stop := False\<rparr>) = (r, t)"
    by (metis prod.collapse)
  with main_loop_frame [OF inv this] show ?thesis
    by (auto simp: run_def no_except_def split: res.splits)
qed

theorem run_forgets_earlier_stop_witness:
  "fst (run scripted_ws found (replicate 3 False)
     (snd (stop scripted_ws (open_handler True None None ())))) \<noteq> Ok True"
  by (rule run_forgets_earlier_stop) simp

text \<open>One call at a time, the handler never dereferences its null client: after any calls on a new
  handler, with any callbacks, \<open>run\<close>, \<open>stop\<close> and \<open>send_message\<close> can end the program only through
  \<open>std::terminate\<close>, for an exception that reaches their \<open>noexcept\<close>. (With a second thread this
  fails: see \<open>Lcu_Websocket_Threads\<close>.)\<close>

theorem sequential_no_null_dereference:
  "let s = fold (perform net get_params) calls (with_callbacks h f g (lcu_websocket_handler e w))
   in fst (run net get_params bs s) \<noteq> Abort Null_dereference \<and>
      fst (stop net s) \<noteq> Abort Null_dereference \<and> fst (send_message net m s) \<noteq> Abort Null_dereference"
proof -
  let ?s = "fold (perform net get_params) calls (with_callbacks h f g (lcu_websocket_handler e w))"
  have inv: "handler_inv ?s"
    by (rule performs_handler_inv)
       (simp add: handler_inv_def with_callbacks_def register_message_callback_def
         register_on_connected_callback_def register_on_disconnected_callback_def lcu_websocket_handler_def)
  then have inv': "handler_inv (?s\<lparr>m_stop := False\<rparr>)" by (simp add: handler_inv_def)
  have "fst (run net get_params bs ?s) \<noteq> Abort Null_dereference"
    using main_loop_frame [OF inv' surjective_pairing, of net get_params bs]
    by (auto simp: run_def no_except_def split: prod.splits res.splits)
  with calls_no_null [OF inv, of net] show ?thesis by simp
qed

text \<open>A disconnection callback that throws ends the program: \<open>run\<close> is \<open>noexcept\<close>, and the exception
  leaves the loop in the round after the connection was lost, stop requested or not.\<close>

theorem disconnect_callback_terminates:
  assumes "handler_inv s" and "\<not> is_connected s" and "m_is_state_connected s"
    and "m_on_disconnected s = Some g" and "g (user s) = (Inl x, w)"
  shows "fst (run net get_params (b # bs) s) = Abort (Terminate x)"
proof -
  let ?s = "s\<lparr>m_stop := b\<rparr>"
  have inv: "handler_inv ?s" "\<not> is_connected ?s"
    using assms(1,2) by (simp_all add: handler_inv_def is_connected_def)
  have n: "notify_connection_state_changed False t = (Throw x, t\<lparr>user := w\<rparr>)"
    if "t = ?s\<lparr>m_websocket := c\<rparr> \<or> t = ?s" for t c
    using that assms(3,4,5) by (auto simp: notify_changed on_user_apply)
  have "fst (loop_body net get_params ?s) = Throw x"
    using reset_disconnected [OF inv, of net] inv(2)
    by (cases b) (simp_all add: loop_body_def reconnect_and_notify_def andthen_def n [where c = None])
  moreover have "(if b then (s\<lparr>m_stop := False\<rparr>)\<lparr>m_stop := True\<rparr> else s\<lparr>m_stop := False\<rparr>) = ?s"
    by simp
  ultimately show ?thesis
    by (cases b; cases "loop_body net get_params ?s") (simp_all add: run_def no_except_def andthen_def)
qed

theorem disconnect_callback_terminates_witness:
  "fst (run scripted_ws found [False]
     ((open_handler False None (Some (\<lambda>w. (Inl (Foreign 1), w))) ())\<lparr>m_is_state_connected := True\<rparr>))
   = Abort (Terminate (Foreign 1))"
  by (rule disconnect_callback_terminates [where w = "()" and g = "\<lambda>w. (Inl (Foreign 1), w)"])
     (simp_all add: open_handler_def handler_inv_def is_connected_def)

text \<open>A connection callback that throws loses the session: \<open>reconnect_and_notify\<close> swallows the
  exception, the handler is connected and will deliver messages, but its flag stays false, so when
  the connection is lost the disconnection callback is not called.\<close>

theorem connect_callback_throw_loses_session:
  assumes "handler_inv s" and "\<not> m_is_state_connected s" and "reconnect net get_params s = (Ok (), t)"
    and "m_on_connected s = Some f" and "f (user s) = (Inl x, w)"
  shows "\<exists>u. reconnect_and_notify net get_params s = (Ok (), u) \<and> user u = w \<and>
     is_connected u \<and> \<not> m_is_state_connected u \<and> notify_connection_state_changed False u = (Ok (), u)"
proof -
  from reconnect_frame [OF assms(1,3)] have t: "only_socket s t" "is_connected t" by simp_all
  then show ?thesis
    using assms
    by (auto simp: reconnect_and_notify_def notify_quiet andthen_def try_catch_def notify_changed
        on_user_apply only_socket_def is_connected_def)
qed

theorem connect_callback_throw_loses_session_witness:
  "\<exists>t. reconnect_and_notify scripted_ws found (open_handler False (Some (\<lambda>w. (Inl (Foreign 1), w))) None ()) =
     (Ok (), t) \<and> is_connected t \<and> \<not> m_is_state_connected t"
proof -
  let ?s = "open_handler False (Some (\<lambda>w. (Inl (Foreign 1), w))) None ()"
  obtain t where "reconnect scripted_ws found ?s = (Ok (), t)"
    by (simp add: reconnect_disconnected on_socket_def found_def scripted_ws_def ws_start_def lcu_client_def
        andthen_def try_catch_def on_env_def lift_ext_def set_websocket_def set_connected_def)
  with connect_callback_throw_loses_session [where s = ?s and net = scripted_ws and get_params = found and t = t
      and f = "\<lambda>w. (Inl (Foreign 1), w)" and x = "Foreign 1" and w = "()"]
  show ?thesis by auto
qed

text \<open>An exception of the message callback stops nothing: while the handler is connected, a round
  of the loop returns and goes on, whatever \<open>receive_message\<close> and the callback throw, and neither the
  flag nor the callbacks change.\<close>

theorem message_exceptions_are_swallowed:
  assumes "handler_inv s" and "is_connected s" and "\<not> m_stop s"
  shows "\<exists>t. loop_body net get_params s = (Ok False, t) \<and> handler_inv t \<and> m_websocket t \<noteq> None \<and>
     m_is_state_connected t = m_is_state_connected s \<and>
     m_on_message_received t = m_on_message_received s"
  by (rule message_exceptions_swallowed_frame [OF assms])

theorem message_exceptions_are_swallowed_witness:
  "\<exists>t. loop_body scripted_ws found
     ((open_handler True None None ())\<lparr>m_on_message_received := Some (\<lambda>m w. (Inl (Foreign 1), w)),
       outside := [Frame ''hi'' 0x81]\<rparr>) = (Ok False, t) \<and> m_websocket t \<noteq> None"
  using message_exceptions_are_swallowed [of "(open_handler True None None ())
      \<lparr>m_on_message_received := Some (\<lambda>m w. (Inl (Foreign 1), w)), outside := [Frame ''hi'' 0x81]\<rparr>"
      scripted_ws found]
  by (auto simp: open_handler_def handler_inv_def is_connected_def ws_inv_def ws_is_connected_def)

text \<open>\<open>send_message\<close> and \<open>stop\<close> from a quiet handler. Not connected: \<open>false\<close>, and the request is
  noted; nothing is sent. Connected: exactly one text frame goes to the socket (\<open>Exit\<close> for \<open>stop\<close>),
  and \<open>send_message\<close> is true; but when POCO's \<open>sendFrame\<close> throws, both end the program, where the
  documentation promises \<open>false\<close>.\<close>

theorem send_and_stop_outcome:
  assumes "handler_inv s"
  shows "(\<not> is_connected s \<longrightarrow> send_message net m s = (Ok False, s) \<and> stop net s = (Ok (), s\<lparr>m_stop := True\<rparr>)) \<and>
     (is_connected s \<longrightarrow>
       (\<exists>c k. m_websocket s = Some c \<and> wc_websocket c = Some k \<and> send_message net m s =
         (case ws_send_frame net k m (word_of_nat (length m)) frame_text (outside s) of
            (Inr _, e) \<Rightarrow> (Ok True, s\<lparr>outside := e\<rparr>)
          | (Inl x, e) \<Rightarrow> (Abort (Terminate x), s\<lparr>outside := e\<rparr>))) \<and>
       (\<exists>c k. m_websocket s = Some c \<and> wc_websocket c = Some k \<and> stop net s =
         (case ws_send_frame net k ''Exit'' 4 frame_text (outside s) of
            (Inr _, e) \<Rightarrow> (Ok (), s\<lparr>m_stop := True, outside := e\<rparr>)
          | (Inl x, e) \<Rightarrow> (Abort (Terminate x), s\<lparr>m_stop := True, outside := e\<rparr>))))"
  using not_connected_calls [of s] send_message_connected [OF assms] stop_connected [OF assms] by blast

theorem send_and_stop_outcome_witness:
  "send_message (scripted_ws\<lparr>ws_send_frame := \<lambda>k m l f e. (Inl (Poco Other_poco_exception ''reset''), e)\<rparr>)
     ''x'' (open_handler True None None ()) =
   (Abort (Terminate (Poco Other_poco_exception ''reset'')), open_handler True None None ())"
  using send_and_stop_outcome [of "open_handler True None None ()"
      "scripted_ws\<lparr>ws_send_frame := \<lambda>k m l f e. (Inl (Poco Other_poco_exception ''reset''), e)\<rparr>" "''x''"]
  by (auto simp: open_handler_outside)

end
