(* ===== verification/Lcu_Wamp.thy ===== *)
theory Lcu_Wamp
  imports Lcu_Websocket
begin

text \<open>
  \<open>include/rito/lcu_wamp_handler.h\<close> and \<open>src/lcu_wamp_handler.cpp\<close>: WAMP over the websocket handler.
  The object is the websocket handler of \<open>Lcu_Websocket\<close> whose callbacks are the three lambdas of the
  constructor. They capture \<open>this\<close> and read its callback members when they are called; so the
  members and the user's program are together the state these callbacks work on (\<open>wamp_side\<close>). JSON
  parsing is POCO's and a parameter. Outgoing messages are the code's own string building; a reader
  of WAMP frames is defined here to say what they mean.
\<close>

subsection \<open>State\<close>

datatype wamp_message_type =
    Type_call | Type_call_result | Type_call_error | Type_subscribe | Type_unsubscribe | Type_event

fun wamp_code :: "wamp_message_type \<Rightarrow> nat" where
  "wamp_code Type_call = 2"
| "wamp_code Type_call_result = 3"
| "wamp_code Type_call_error = 4"
| "wamp_code Type_subscribe = 5"
| "wamp_code Type_unsubscribe = 6"
| "wamp_code Type_event = 8"

text \<open>The message types are finitely many, so facts about all of them are computed.\<close>

instantiation wamp_message_type :: enum
begin

definition enum_wamp_message_type :: "wamp_message_type list" where
  "enum_wamp_message_type = [Type_call, Type_call_result, Type_call_error, Type_subscribe, Type_unsubscribe, Type_event]"

definition enum_all_wamp_message_type :: "(wamp_message_type \<Rightarrow> bool) \<Rightarrow> bool" where
  "enum_all_wamp_message_type P \<longleftrightarrow> list_all P enum_class.enum"

definition enum_ex_wamp_message_type :: "(wamp_message_type \<Rightarrow> bool) \<Rightarrow> bool" where
  "enum_ex_wamp_message_type P \<longleftrightarrow> list_ex P enum_class.enum"

instance
proof
  show all: "(UNIV :: wamp_message_type set) = set enum_class.enum"
  proof (rule UNIV_eq_I)
    show "t \<in> set enum_class.enum" for t :: wamp_message_type
      by (cases t) (simp_all add: enum_wamp_message_type_def)
  qed
  show "distinct (enum_class.enum :: wamp_message_type list)"
    by (simp add: enum_wamp_message_type_def)
  show "enum_class.enum_all P \<longleftrightarrow> Ball (UNIV :: wamp_message_type set) P" for P
    by (simp add: all enum_all_wamp_message_type_def list_all_iff)
  show "enum_class.enum_ex P \<longleftrightarrow> Bex (UNIV :: wamp_message_type set) P" for P
    by (simp add: all enum_ex_wamp_message_type_def list_ex_iff)
qed

end

lemma wamp_codes_distinct: "wamp_code a = wamp_code b \<longleftrightarrow> a = b"
proof -
  have "distinct (map wamp_code enum_class.enum)" by code_simp
  then have "inj wamp_code" by (simp add: distinct_map UNIV_enum)
  then show ?thesis by (rule inj_eq)
qed

record 'w wamp_side =
  m_on_connected_callback :: "'w connection_callback option"
  m_on_disconnected_callback :: "'w connection_callback option"
  m_on_call_result_callback :: "'w wamp_call_result_callback option"
  m_on_call_error_callback :: "'w wamp_call_error_callback option"
  m_on_event_callback :: "'w wamp_event_callback option"
  program :: 'w

type_synonym ('e, 'n, 'k, 'w) wamp_handler = "('e, 'n, 'k, 'w wamp_side) ws_handler"

text \<open>\<open>Parser::parse\<close>, \<open>Var::extract<Array::Ptr>\<close>, \<open>Array::get\<close>, the conversion of a \<open>Var\<close> to \<open>int\<close> and
  \<open>Var::toString\<close>. Each may throw.\<close>

record ('v, 'a) poco_json =
  json_parse :: "string \<Rightarrow> exn + 'v"
  json_array :: "'v \<Rightarrow> exn + 'a"
  json_get :: "'a \<Rightarrow> nat \<Rightarrow> exn + 'v"
  json_to_int :: "'v \<Rightarrow> exn + 32 word"
  json_to_string :: "'v \<Rightarrow> exn + string"

subsection \<open>Incoming messages\<close>

fun sum_bind :: "exn + 'a \<Rightarrow> ('a \<Rightarrow> exn + 'b) \<Rightarrow> exn + 'b" where
  "sum_bind (Inl x) f = Inl x"
| "sum_bind (Inr v) f = f v"

text \<open>\<open>message_json_array->get(i).toString()\<close>\<close>

definition json_text :: "('v, 'a) poco_json \<Rightarrow> 'a \<Rightarrow> nat \<Rightarrow> exn + string" where
  "json_text js a i = sum_bind (json_get js a i) (json_to_string js)"

definition parse_call_result :: "('v, 'a) poco_json \<Rightarrow> 'a \<Rightarrow> exn + string \<times> string" where
  "parse_call_result js a =
     sum_bind (json_text js a 1) (\<lambda>call_id.
     sum_bind (json_text js a 2) (\<lambda>call_result.
     Inr (call_id, call_result)))"

definition parse_call_error :: "('v, 'a) poco_json \<Rightarrow> 'a \<Rightarrow> exn + string \<times> string \<times> string" where
  "parse_call_error js a =
     sum_bind (json_text js a 1) (\<lambda>call_id.
     sum_bind (json_text js a 2) (\<lambda>error.
     sum_bind (json_text js a 3) (\<lambda>error_description.
     Inr (call_id, error, error_description))))"

definition parse_event :: "('v, 'a) poco_json \<Rightarrow> 'a \<Rightarrow> exn + string \<times> string" where
  "parse_event js a =
     sum_bind (json_text js a 1) (\<lambda>event_name.
     sum_bind (json_text js a 2) (\<lambda>event_data.
     Inr (event_name, event_data)))"

text \<open>\<open>if (callback) { callback(...); }\<close> on the user's program.\<close>

definition on_program :: "('w, unit) ext option \<Rightarrow> ('w wamp_side, unit) cpp" where
  "on_program f = (\<lambda>s. case f of
       None \<Rightarrow> (Ok (), s)
     | Some g \<Rightarrow> (case lift_ext g (program s) of (r, w) \<Rightarrow> (r, s\<lparr>program := w\<rparr>)))"

definition on_connected :: "('w wamp_side, unit) cpp" where
  "on_connected = (\<lambda>s. on_program (m_on_connected_callback s) s)"

definition on_disconnected :: "('w wamp_side, unit) cpp" where
  "on_disconnected = (\<lambda>s. on_program (m_on_disconnected_callback s) s)"

definition on_event :: "string \<Rightarrow> string \<Rightarrow> ('w wamp_side, unit) cpp" where
  "on_event event json_data = (\<lambda>s.
     on_program (map_option (\<lambda>f. f event json_data) (m_on_event_callback s)) s)"

definition on_call_result :: "string \<Rightarrow> string \<Rightarrow> ('w wamp_side, unit) cpp" where
  "on_call_result identifier json_data = (\<lambda>s.
     on_program (map_option (\<lambda>f. f identifier json_data) (m_on_call_result_callback s)) s)"

definition on_call_error :: "string \<Rightarrow> string \<Rightarrow> string \<Rightarrow> ('w wamp_side, unit) cpp" where
  "on_call_error identifier error error_description = (\<lambda>s.
     on_program (map_option (\<lambda>f. f identifier error error_description) (m_on_call_error_callback s)) s)"

text \<open>The \<open>catch\<close> clause names \<open>Poco::Exception\<close>: \<open>exception.h\<close> is not included, and the file uses
  the namespace \<open>Poco\<close>.\<close>

definition dispatch_message :: "('v, 'a) poco_json \<Rightarrow> string \<Rightarrow> ('w wamp_side, unit) cpp" where
  "dispatch_message js message =
     try_catch
       (andthen (of_sum (json_parse js message)) (\<lambda>message_var.
        andthen (of_sum (json_array js message_var)) (\<lambda>message_json_array.
        andthen (of_sum (json_get js message_json_array 0)) (\<lambda>v.
        andthen (of_sum (json_to_int js v)) (\<lambda>wamp_message_id.
        if wamp_message_id = word_of_nat (wamp_code Type_call_result)
        then andthen (of_sum (parse_call_result js message_json_array)) (\<lambda>(identifier, json_data).
             on_call_result identifier json_data)
        else if wamp_message_id = word_of_nat (wamp_code Type_call_error)
        then andthen (of_sum (parse_call_error js message_json_array)) (\<lambda>(identifier, error, error_description).
             on_call_error identifier error error_description)
        else if wamp_message_id = word_of_nat (wamp_code Type_event)
        then andthen (of_sum (parse_event js message_json_array)) (\<lambda>(event, json_data).
             on_event event json_data)
        else ret ())))))
       (\<lambda>x. if is_poco_exception x then ret () else throw x)"

definition on_message :: "('v, 'a) poco_json \<Rightarrow> string \<Rightarrow> ('w wamp_side, unit) cpp" where
  "on_message js message = (if message = [] then ret () else dispatch_message js message)"

subsection \<open>The object\<close>

text \<open>An operation on the captured object, as the callback of the websocket handler. These operations
  do not end the program (\<open>wamp_lambdas_never_abort\<close>), so the last line is never used.\<close>

definition lambda :: "('w wamp_side, unit) cpp \<Rightarrow> ('w wamp_side, unit) ext" where
  "lambda m = (\<lambda>s. case m s of
      (Ok a, t) \<Rightarrow> (Inr a, t)
    | (Throw x, t) \<Rightarrow> (Inl x, t)
    | (Abort b, t) \<Rightarrow> (Inr (), t))"

definition lcu_wamp_handler :: "('v, 'a) poco_json \<Rightarrow> 'e \<Rightarrow> 'w \<Rightarrow> ('e, 'n, 'k, 'w) wamp_handler" where
  "lcu_wamp_handler js e w =
     register_message_callback (Some (\<lambda>message. lambda (on_message js message)))
       (register_on_disconnected_callback (Some (lambda on_disconnected))
         (register_on_connected_callback (Some (lambda on_connected))
           (lcu_websocket_handler e
             \<lparr>m_on_connected_callback = None, m_on_disconnected_callback = None,
              m_on_call_result_callback = None, m_on_call_error_callback = None,
              m_on_event_callback = None, program = w\<rparr>)))"

definition register_wamp_on_connected ::
  "'w connection_callback option \<Rightarrow> ('e, 'n, 'k, 'w) wamp_handler \<Rightarrow> ('e, 'n, 'k, 'w) wamp_handler" where
  "register_wamp_on_connected f s = s\<lparr>user := (user s)\<lparr>m_on_connected_callback := f\<rparr>\<rparr>"

definition register_wamp_on_disconnected ::
  "'w connection_callback option \<Rightarrow> ('e, 'n, 'k, 'w) wamp_handler \<Rightarrow> ('e, 'n, 'k, 'w) wamp_handler" where
  "register_wamp_on_disconnected f s = s\<lparr>user := (user s)\<lparr>m_on_disconnected_callback := f\<rparr>\<rparr>"

definition register_call_result_callback ::
  "'w wamp_call_result_callback option \<Rightarrow> ('e, 'n, 'k, 'w) wamp_handler \<Rightarrow> ('e, 'n, 'k, 'w) wamp_handler" where
  "register_call_result_callback f s = s\<lparr>user := (user s)\<lparr>m_on_call_result_callback := f\<rparr>\<rparr>"

definition register_call_error_callback ::
  "'w wamp_call_error_callback option \<Rightarrow> ('e, 'n, 'k, 'w) wamp_handler \<Rightarrow> ('e, 'n, 'k, 'w) wamp_handler" where
  "register_call_error_callback f s = s\<lparr>user := (user s)\<lparr>m_on_call_error_callback := f\<rparr>\<rparr>"

definition register_event_callback ::
  "'w wamp_event_callback option \<Rightarrow> ('e, 'n, 'k, 'w) wamp_handler \<Rightarrow> ('e, 'n, 'k, 'w) wamp_handler" where
  "register_event_callback f s = s\<lparr>user := (user s)\<lparr>m_on_event_callback := f\<rparr>\<rparr>"

definition wamp_run ::
  "('e, 'n, 'k) poco_ws \<Rightarrow> ('e, lcu_parameters) ext \<Rightarrow> bool list \<Rightarrow> (('e, 'n, 'k, 'w) wamp_handler, bool) cpp" where
  "wamp_run net get_params stops = run net get_params stops"

definition wamp_stop :: "('e, 'n, 'k) poco_ws \<Rightarrow> (('e, 'n, 'k, 'w) wamp_handler, unit) cpp" where
  "wamp_stop net = stop net"

subsection \<open>Outgoing messages\<close>

text \<open>The character \<open>"\<close>.\<close>

definition quote :: char where
  "quote = CHR 0x22"

definition subscribe_message :: "string \<Rightarrow> string" where
  "subscribe_message event =
     ''['' @ to_string (wamp_code Type_subscribe) @ '', '' @ [quote] @ event @ [quote]"

definition unsubscribe_message :: "string \<Rightarrow> string" where
  "unsubscribe_message event =
     ''['' @ to_string (wamp_code Type_unsubscribe) @ '', '' @ [quote] @ event @ [quote]"

definition call_message :: "string \<Rightarrow> string \<Rightarrow> string" where
  "call_message identifier f =
     ''['' @ to_string (wamp_code Type_subscribe) @ '', '' @ [quote] @ identifier @ [quote] @ '', '' @
       [quote] @ f @ [quote] @ '']''"

text \<open>\<open>((", \""s + args + "\""s) + ...)\<close>, a right fold over a non-empty pack.\<close>

fun argument_list :: "string list \<Rightarrow> string" where
  "argument_list [] = []"
| "argument_list [a] = '', '' @ [quote] @ a @ [quote]"
| "argument_list (a # as) = ('', '' @ [quote] @ a @ [quote]) @ argument_list as"

definition call_message_with :: "string \<Rightarrow> string \<Rightarrow> string list \<Rightarrow> string" where
  "call_message_with identifier f args =
     ''['' @ to_string (wamp_code Type_call) @ '', '' @ [quote] @ identifier @ [quote] @ '', '' @
       [quote] @ f @ [quote] @ argument_list args @ '']''"

definition wamp_subscribe ::
  "('e, 'n, 'k) poco_ws \<Rightarrow> string \<Rightarrow> (('e, 'n, 'k, 'w) wamp_handler, bool) cpp" where
  "wamp_subscribe net event = send_message net (subscribe_message event)"

definition wamp_unsubscribe ::
  "('e, 'n, 'k) poco_ws \<Rightarrow> string \<Rightarrow> (('e, 'n, 'k, 'w) wamp_handler, bool) cpp" where
  "wamp_unsubscribe net event = send_message net (unsubscribe_message event)"

text \<open>\<open>call\<close>: the member without arguments is chosen when there are none, the template otherwise.\<close>

definition wamp_call ::
  "('e, 'n, 'k) poco_ws \<Rightarrow> string \<Rightarrow> string \<Rightarrow> string list \<Rightarrow> (('e, 'n, 'k, 'w) wamp_handler, bool) cpp" where
  "wamp_call net identifier f args =
     send_message net (if args = [] then call_message identifier f else call_message_with identifier f args)"

lemma on_program_not_abort [simp]: "\<not> is_abort (fst (on_program f s))"
  by (simp add: on_program_def lift_ext_def split: option.split prod.split sum.split)

lemma never_aborts_callbacks [no_abort]:
  "never_aborts on_connected" "never_aborts on_disconnected" "never_aborts (on_event a b)"
  "never_aborts (on_call_result a b)" "never_aborts (on_call_error a b c)"
  by (simp_all add: never_aborts_def on_connected_def on_disconnected_def on_event_def on_call_result_def
      on_call_error_def)

lemma never_aborts_case_prod [no_abort]: "(\<And>a b. never_aborts (f a b)) \<Longrightarrow> never_aborts (case_prod f p)"
  by (simp add: split_beta)

lemma never_aborts_if [no_abort]: "never_aborts m \<Longrightarrow> never_aborts k \<Longrightarrow> never_aborts (if b then m else k)"
  by simp

lemma wamp_lambdas_never_abort: "never_aborts (on_message js m)"
  unfolding on_message_def dispatch_message_def by (intro no_abort)

subsection \<open>What a dispatched message comes to\<close>

text \<open>A WAMP message as the user gets it.\<close>

datatype wamp_message =
    Call_result string string
  | Call_error string string string
  | Event string string

text \<open>
  The reference: what POCO makes of a text. \<open>None\<close> when the text is empty, is not a JSON array, has
  no number in front, has one that is not 3, 4 or 8, or lacks a field that the number calls for.
\<close>

fun right_of :: "exn + 'x \<Rightarrow> 'x option" where
  "right_of (Inl _) = None"
| "right_of (Inr v) = Some v"

definition field :: "('v, 'a) poco_json \<Rightarrow> 'a \<Rightarrow> nat \<Rightarrow> string option" where
  "field js a i = Option.bind (right_of (json_get js a i)) (\<lambda>v. right_of (json_to_string js v))"

definition message_of :: "('v, 'a) poco_json \<Rightarrow> string \<Rightarrow> wamp_message option" where
  "message_of js m = (if m = [] then None else
     Option.bind (right_of (json_parse js m)) (\<lambda>v.
     Option.bind (right_of (json_array js v)) (\<lambda>a.
     Option.bind (right_of (json_get js a 0)) (\<lambda>h.
     Option.bind (right_of (json_to_int js h)) (\<lambda>n.
       if n = 3 then Option.bind (field js a 1) (\<lambda>i. map_option (Call_result i) (field js a 2))
       else if n = 4 then Option.bind (field js a 1) (\<lambda>i.
         Option.bind (field js a 2) (\<lambda>x. map_option (Call_error i x) (field js a 3)))
       else if n = 8 then Option.bind (field js a 1) (\<lambda>i. map_option (Event i) (field js a 2))
       else None)))))"

text \<open>The user's callback that a message is for, with the message's texts.\<close>

fun callback_of :: "wamp_message \<Rightarrow> 'w wamp_side \<Rightarrow> ('w, unit) ext option" where
  "callback_of (Call_result i d) s = map_option (\<lambda>f. f i d) (m_on_call_result_callback s)"
| "callback_of (Call_error i x d) s = map_option (\<lambda>f. f i x d) (m_on_call_error_callback s)"
| "callback_of (Event n d) s = map_option (\<lambda>f. f n d) (m_on_event_callback s)"

lemma on_callbacks:
  "on_call_result i d = (\<lambda>s. on_program (callback_of (Call_result i d) s) s)"
  "on_call_error i x d = (\<lambda>s. on_program (callback_of (Call_error i x d) s) s)"
  "on_event n d = (\<lambda>s. on_program (callback_of (Event n d) s) s)"
  by (simp_all add: on_call_result_def on_call_error_def on_event_def)

text \<open>What a call of it leaves: its exception, unless POCO defined it, and the state it has made.\<close>

definition called :: "('w, unit) ext \<Rightarrow> 'w wamp_side \<Rightarrow> (exn, unit) res \<times> 'w wamp_side" where
  "called f s = (case f (program s) of
       (Inl x, w) \<Rightarrow> (if is_poco_exception x then Ok () else Throw x, s\<lparr>program := w\<rparr>)
     | (Inr _, w) \<Rightarrow> (Ok (), s\<lparr>program := w\<rparr>))"

text \<open>POCO's JSON classes throw POCO's exceptions only.\<close>

definition poco_errors :: "('v, 'a) poco_json \<Rightarrow> bool" where
  "poco_errors js \<longleftrightarrow>
     (\<forall>m x. json_parse js m = Inl x \<longrightarrow> is_poco_exception x) \<and>
     (\<forall>v x. json_array js v = Inl x \<longrightarrow> is_poco_exception x) \<and>
     (\<forall>a i x. json_get js a i = Inl x \<longrightarrow> is_poco_exception x) \<and>
     (\<forall>v x. json_to_int js v = Inl x \<longrightarrow> is_poco_exception x) \<and>
     (\<forall>v x. json_to_string js v = Inl x \<longrightarrow> is_poco_exception x)"

lemma right_of_sum_bind [simp]: "right_of (sum_bind m f) = Option.bind (right_of m) (\<lambda>v. right_of (f v))"
  by (cases m) simp_all

lemma bind_case: "Option.bind m f = (case m of None \<Rightarrow> None | Some v \<Rightarrow> f v)"
  by (cases m) simp_all

lemma right_of_text: "right_of (json_text js a i) = field js a i"
  by (simp add: json_text_def field_def)

lemma right_of_parsers:
  "right_of (parse_call_result js a) = Option.bind (field js a 1) (\<lambda>i. map_option (Pair i) (field js a 2))"
  "right_of (parse_event js a) = Option.bind (field js a 1) (\<lambda>i. map_option (Pair i) (field js a 2))"
  "right_of (parse_call_error js a) = Option.bind (field js a 1) (\<lambda>i. Option.bind (field js a 2) (\<lambda>x.
     map_option (\<lambda>d. (i, x, d)) (field js a 3)))"
  by (simp_all add: parse_call_result_def parse_call_error_def parse_event_def right_of_text
      bind_case map_option_case)

text \<open>A pure step in the \<open>try\<close> block: either it has a value, or POCO's exception is swallowed.\<close>

definition poco_only :: "exn + 'x \<Rightarrow> bool" where
  "poco_only r \<longleftrightarrow> (\<forall>x. r = Inl x \<longrightarrow> is_poco_exception x)"

lemma poco_only_bind: "poco_only m \<Longrightarrow> (\<And>v. poco_only (f v)) \<Longrightarrow> poco_only (sum_bind m f)"
  by (cases m) (simp_all add: poco_only_def)

lemma poco_only_Inr: "poco_only (Inr v)"
  by (simp add: poco_only_def)

lemma poco_errorsD:
  assumes "poco_errors js"
  shows "poco_only (json_parse js m)" "poco_only (json_array js v)" "poco_only (json_get js a i)"
    "poco_only (json_to_int js v)" "poco_only (json_to_string js v)" "poco_only (json_text js a i)"
    "poco_only (parse_call_result js a)" "poco_only (parse_call_error js a)" "poco_only (parse_event js a)"
proof -
  note e = assms [unfolded poco_errors_def, folded poco_only_def]
  then show base: "poco_only (json_parse js m)" "poco_only (json_array js v)" "poco_only (json_get js a i)"
    "poco_only (json_to_int js v)" "poco_only (json_to_string js v)" for m v a i
    by (simp_all add: poco_only_def)
  then show fields: "poco_only (json_text js a i)" for a i
    unfolding json_text_def by (intro poco_only_bind)
  then show "poco_only (parse_call_result js a)" "poco_only (parse_call_error js a)" "poco_only (parse_event js a)"
    unfolding parse_call_result_def parse_call_error_def parse_event_def
    by (intro poco_only_bind poco_only_Inr fields)+
qed

lemma try_step:
  assumes "poco_only r"
  shows "try_catch (andthen (of_sum r) f) (\<lambda>x. if is_poco_exception x then ret () else throw x) s =
     (case right_of r of None \<Rightarrow> (Ok (), s)
      | Some v \<Rightarrow> try_catch (f v) (\<lambda>x. if is_poco_exception x then ret () else throw x) s)"
  using assms by (cases r) (simp_all add: poco_only_def try_catch_def andthen_def)

lemma try_ret: "try_catch (ret a) h s = (Ok a, s)"
  by (simp add: try_catch_def)

lemma on_message_reads:
  assumes "poco_errors js"
  shows "on_message js m s = (case message_of js m of
      None \<Rightarrow> (Ok (), s)
    | Some msg \<Rightarrow> try_catch (\<lambda>s. on_program (callback_of msg s) s)
        (\<lambda>x. if is_poco_exception x then ret () else throw x) s)"
  by (simp add: on_message_def dispatch_message_def message_of_def try_step [OF poco_errorsD(1) [OF assms]]
      try_step [OF poco_errorsD(2) [OF assms]] try_step [OF poco_errorsD(3) [OF assms]]
      try_step [OF poco_errorsD(4) [OF assms]] try_step [OF poco_errorsD(7) [OF assms]]
      try_step [OF poco_errorsD(8) [OF assms]] try_step [OF poco_errorsD(9) [OF assms]]
      right_of_parsers try_ret bind_case map_option_case on_callbacks split: option.split)

lemma try_callback:
  "try_catch (\<lambda>s. on_program (callback_of msg s) s) (\<lambda>x. if is_poco_exception x then ret () else throw x) s =
     (case callback_of msg s of None \<Rightarrow> (Ok (), s) | Some f \<Rightarrow> called f s)"
  by (auto simp: try_catch_def on_program_def called_def lift_ext_def split: option.split prod.split sum.split)

lemma on_message_eq:
  assumes "poco_errors js"
  shows "on_message js m s = (case Option.bind (message_of js m) (\<lambda>msg. callback_of msg s) of
      None \<Rightarrow> (Ok (), s)
    | Some f \<Rightarrow> called f s)"
  by (cases "message_of js m") (simp_all add: on_message_reads [OF assms] try_callback)

subsection \<open>A reader for WAMP frames\<close>

text \<open>
  The part of JSON (RFC 8259) that the outgoing messages use: an array of a number and strings, with
  spaces before the strings. In a string a backslash escapes the next character and the characters
  below 32 are not allowed; the escape \<open>\u\<close> is not read.
\<close>

datatype reader = Next | Want_string | In_string string | Escaped string

definition backslash :: char where
  "backslash = CHR 0x5C"

fun unescape :: "char \<Rightarrow> char option" where
  "unescape c =
     (if c = quote \<or> c = backslash \<or> c = CHR ''/'' then Some c
      else if c = CHR ''b'' then Some (char_of (8 :: nat))
      else if c = CHR ''f'' then Some (char_of (12 :: nat))
      else if c = CHR ''n'' then Some (char_of (10 :: nat))
      else if c = CHR ''r'' then Some (char_of (13 :: nat))
      else if c = CHR ''t'' then Some (char_of (9 :: nat))
      else None)"

definition is_control :: "char \<Rightarrow> bool" where
  "is_control c \<longleftrightarrow> (of_char c :: nat) < 32"

fun read_rest :: "reader \<Rightarrow> string \<Rightarrow> string list option" where
  "read_rest r [] = None"
| "read_rest Next (c # cs) =
     (if c = CHR '' '' then read_rest Next cs
      else if c = CHR '','' then read_rest Want_string cs
      else if c = CHR '']'' \<and> cs = [] then Some []
      else None)"
| "read_rest Want_string (c # cs) =
     (if c = CHR '' '' then read_rest Want_string cs
      else if c = quote then read_rest (In_string []) cs
      else None)"
| "read_rest (In_string a) (c # cs) =
     (if c = quote then map_option (Cons (rev a)) (read_rest Next cs)
      else if c = backslash then read_rest (Escaped a) cs
      else if is_control c then None
      else read_rest (In_string (c # a)) cs)"
| "read_rest (Escaped a) (c # cs) =
     (case unescape c of None \<Rightarrow> None | Some d \<Rightarrow> read_rest (In_string (d # a)) cs)"

fun read_wamp :: "string \<Rightarrow> (nat \<times> string list) option" where
  "read_wamp [] = None"
| "read_wamp (c # cs) =
     (let ds = takeWhile isdigit cs
      in if c = CHR ''['' \<and> ds \<noteq> [] then map_option (Pair (decimal ds)) (read_rest Next (dropWhile isdigit cs))
         else None)"

lemma quote_chars [simp]: "quote \<noteq> CHR '' ''" "quote \<noteq> CHR '',''" "quote \<noteq> CHR '']''" "quote \<noteq> backslash"
  by (simp_all add: quote_def backslash_def)

text \<open>A text that stands for itself between quotes.\<close>

definition plain :: "string \<Rightarrow> bool" where
  "plain s \<longleftrightarrow> list_all (\<lambda>c. c \<noteq> quote \<and> c \<noteq> backslash \<and> \<not> is_control c) s"

lemma read_plain:
  "plain s \<Longrightarrow> read_rest (In_string a) (s @ quote # cs) = map_option (Cons (rev a @ s)) (read_rest Next cs)"
  by (induction s arbitrary: a) (simp_all add: plain_def)

lemma read_string:
  "plain s \<Longrightarrow> read_rest Next ('', '' @ [quote] @ s @ [quote] @ cs) = map_option (Cons s) (read_rest Next cs)"
  by (simp add: read_plain)

text \<open>Whatever can be read ends with a bracket.\<close>

lemma read_rest_last: "read_rest r cs = Some x \<Longrightarrow> cs \<noteq> [] \<and> last cs = CHR '']''"
  by (induction r cs arbitrary: x rule: read_rest.induct) (auto split: if_splits option.splits)

lemma read_wamp_last:
  assumes "read_wamp m = Some x"
  shows "last m = CHR '']''"
proof -
  from assms obtain c cs y where m: "m = c # cs" and r: "read_rest Next (dropWhile isdigit cs) = Some y"
    by (cases m) (auto simp: Let_def split: if_splits)
  from read_rest_last [OF r] have ne: "dropWhile isdigit cs \<noteq> []" and l: "last (dropWhile isdigit cs) = CHR '']''"
    by auto
  from ne have "last (takeWhile isdigit cs @ dropWhile isdigit cs) = last (dropWhile isdigit cs)"
    by (rule last_appendR)
  moreover from ne have "cs \<noteq> []" by auto
  ultimately show ?thesis using l m by simp
qed

lemma not_digit: "\<not> isdigit (CHR '','')"
  by (simp add: isdigit_def)

lemma read_wamp_number:
  "read_wamp (''['' @ to_string n @ '', '' @ cs) = map_option (Pair n) (read_rest Next ('', '' @ cs))"
proof -
  have d: "\<forall>x \<in> set (to_string n). isdigit x" using to_string_digits by (simp add: list_all_iff)
  have "takeWhile isdigit (to_string n @ CHR '','' # CHR '' '' # cs) = to_string n"
    "dropWhile isdigit (to_string n @ CHR '','' # CHR '' '' # cs) = CHR '','' # CHR '' '' # cs"
    using d not_digit by (simp_all add: takeWhile_append2 dropWhile_append2)
  then show ?thesis by (simp add: decimal_to_string)
qed

lemma read_argument_list:
  "list_all plain args \<Longrightarrow>
     read_rest Next (argument_list args @ cs) = map_option (\<lambda>xs. args @ xs) (read_rest Next cs)"
proof (induction args rule: argument_list.induct)
  case 1
  show ?case by (simp add: option.map_ident)
next
  case (2 a)
  then show ?case using read_string [of a cs] by simp
next
  case (3 a b bs)
  have "read_rest Next (argument_list (a # b # bs) @ cs) =
      read_rest Next ('', '' @ [quote] @ a @ [quote] @ argument_list (b # bs) @ cs)"
    by simp
  also have "\<dots> = map_option (Cons a) (read_rest Next (argument_list (b # bs) @ cs))"
    using 3 by (intro read_string) simp
  also have "\<dots> = map_option (\<lambda>xs. (a # b # bs) @ xs) (read_rest Next cs)"
    using 3 by (simp add: option.map_comp comp_def)
  finally show ?case .
qed

text \<open>The wamp handler's callbacks, as a list of events.\<close>

datatype wamp_event = Wamp_connected | Wamp_disconnected | Wamp_message wamp_message

fun shape :: "wamp_event \<Rightarrow> ws_event" where
  "shape Wamp_connected = Connected"
| "shape Wamp_disconnected = Disconnected"
| "shape (Wamp_message m) = Received []"

text \<open>A program whose five callbacks only append to what \<open>tr\<close> reads; the connection callbacks do not
  throw.\<close>

definition wamp_marks :: "('w \<Rightarrow> wamp_event list) \<Rightarrow> 'w wamp_side \<Rightarrow> bool" where
  "wamp_marks tr s \<longleftrightarrow>
     (\<exists>f. m_on_connected_callback s = Some f \<and>
        (\<forall>w. fst (f w) = Inr () \<and> tr (snd (f w)) = tr w @ [Wamp_connected])) \<and>
     (\<exists>f. m_on_disconnected_callback s = Some f \<and>
        (\<forall>w. fst (f w) = Inr () \<and> tr (snd (f w)) = tr w @ [Wamp_disconnected])) \<and>
     (\<exists>f. m_on_call_result_callback s = Some f \<and>
        (\<forall>i d w. tr (snd (f i d w)) = tr w @ [Wamp_message (Call_result i d)])) \<and>
     (\<exists>f. m_on_call_error_callback s = Some f \<and>
        (\<forall>i x d w. tr (snd (f i x d w)) = tr w @ [Wamp_message (Call_error i x d)])) \<and>
     (\<exists>f. m_on_event_callback s = Some f \<and>
        (\<forall>n d w. tr (snd (f n d w)) = tr w @ [Wamp_message (Event n d)]))"

lemma lambda_on_program:
  "lambda (\<lambda>s. on_program (f s) s) s = (case f s of None \<Rightarrow> (Inr (), s)
     | Some g \<Rightarrow> (fst (g (program s)), s\<lparr>program := snd (g (program s))\<rparr>))"
  by (simp add: lambda_def on_program_def lift_ext_def split: option.split prod.split sum.split)

lemma wamp_marks_program [simp]: "wamp_marks tr (s\<lparr>program := w\<rparr>) = wamp_marks tr s"
  by (simp add: wamp_marks_def)

text \<open>The callback of a message leaves its mark.\<close>

lemma callback_marks:
  assumes "wamp_marks tr s"
  shows "\<exists>f. callback_of msg s = Some f \<and> (\<forall>w. tr (snd (f w)) = tr w @ [Wamp_message msg])"
  using assms by (cases msg) (auto simp: wamp_marks_def)

lemma lambda_on_message:
  assumes "poco_errors js" and "wamp_marks tr s"
  shows "\<exists>r w es. lambda (on_message js m) s = (r, s\<lparr>program := w\<rparr>) \<and>
     tr w = tr (program s) @ es \<and> es = (case message_of js m of None \<Rightarrow> [] | Some msg \<Rightarrow> [Wamp_message msg])"
proof (cases "message_of js m")
  case None
  then show ?thesis
    by (intro exI [of _ "Inr ()"] exI [of _ "program s"]) (simp add: lambda_def on_message_eq [OF assms(1)])
next
  case (Some msg)
  from callback_marks [OF assms(2), of msg] obtain f where f: "callback_of msg s = Some f"
    "\<forall>w. tr (snd (f w)) = tr w @ [Wamp_message msg]" by blast
  obtain q w where q: "f (program s) = (q, w)" by (metis prod.collapse)
  with f(2) have "tr w = tr (program s) @ [Wamp_message msg]" by (metis snd_conv)
  moreover have "\<exists>r. lambda (on_message js m) s = (r, s\<lparr>program := w\<rparr>)"
    using Some f(1) q by (cases q) (auto simp: lambda_def on_message_eq [OF assms(1)] called_def)
  ultimately show ?thesis using Some by auto
qed

lemma wamp_lambdas_mark:
  assumes "poco_errors js"
  shows "marks (wamp_marks tr) (\<lambda>s. map shape (tr (program s)))
     (\<lambda>m. lambda (on_message js m)) (lambda on_connected) (lambda on_disconnected)"
proof -
  have c: "fst (lambda on_connected s) = Inr () \<and> wamp_marks tr (snd (lambda on_connected s)) \<and>
      tr (program (snd (lambda on_connected s))) = tr (program s) @ [Wamp_connected]"
    if I: "wamp_marks tr s" for s
  proof -
    from I obtain f where f: "m_on_connected_callback s = Some f"
      "\<forall>w. fst (f w) = Inr () \<and> tr (snd (f w)) = tr w @ [Wamp_connected]" by (auto simp: wamp_marks_def)
    have "lambda on_connected s = (fst (f (program s)), s\<lparr>program := snd (f (program s))\<rparr>)"
      unfolding on_connected_def by (simp add: lambda_on_program f(1))
    with f(2) I show ?thesis by simp
  qed
  have d: "fst (lambda on_disconnected s) = Inr () \<and> wamp_marks tr (snd (lambda on_disconnected s)) \<and>
      tr (program (snd (lambda on_disconnected s))) = tr (program s) @ [Wamp_disconnected]"
    if I: "wamp_marks tr s" for s
  proof -
    from I obtain f where f: "m_on_disconnected_callback s = Some f"
      "\<forall>w. fst (f w) = Inr () \<and> tr (snd (f w)) = tr w @ [Wamp_disconnected]" by (auto simp: wamp_marks_def)
    have "lambda on_disconnected s = (fst (f (program s)), s\<lparr>program := snd (f (program s))\<rparr>)"
      unfolding on_disconnected_def by (simp add: lambda_on_program f(1))
    with f(2) I show ?thesis by simp
  qed
  have m: "wamp_marks tr (snd (lambda (on_message js m) s)) \<and>
      (\<exists>es. map shape (tr (program (snd (lambda (on_message js m) s)))) = map shape (tr (program s)) @ es \<and>
         list_all is_received es)"
    if I: "wamp_marks tr s" for m s
  proof -
    from lambda_on_message [OF assms I, of m] obtain r w es where w: "lambda (on_message js m) s = (r, s\<lparr>program := w\<rparr>)"
      "tr w = tr (program s) @ es" "es = (case message_of js m of None \<Rightarrow> [] | Some msg \<Rightarrow> [Wamp_message msg])"
      by blast
    have "list_all is_received (map shape es)" unfolding w(3) by (simp split: option.split)
    with w I show ?thesis by auto
  qed
  show ?thesis unfolding marks_def by (intro conjI allI impI) (use c d m in \<open>simp_all\<close>)
qed

subsection \<open>Calls on a WAMP handler\<close>

datatype wamp_request =
    Wamp_run "bool list" | Wamp_stop | Wamp_call string string "string list"
  | Wamp_subscribe string | Wamp_unsubscribe string

fun wamp_perform ::
  "('e, 'n, 'k) poco_ws \<Rightarrow> ('e, lcu_parameters) ext \<Rightarrow> wamp_request \<Rightarrow>
     ('e, 'n, 'k, 'w) wamp_handler \<Rightarrow> ('e, 'n, 'k, 'w) wamp_handler" where
  "wamp_perform net get_params (Wamp_run bs) s = snd (wamp_run net get_params bs s)"
| "wamp_perform net get_params Wamp_stop s = snd (wamp_stop net s)"
| "wamp_perform net get_params (Wamp_call i f args) s = snd (wamp_call net i f args s)"
| "wamp_perform net get_params (Wamp_subscribe ev) s = snd (wamp_subscribe net ev s)"
| "wamp_perform net get_params (Wamp_unsubscribe ev) s = snd (wamp_unsubscribe net ev s)"

fun lower :: "wamp_request \<Rightarrow> handler_call" where
  "lower (Wamp_run bs) = Run bs"
| "lower Wamp_stop = Stop"
| "lower (Wamp_call i f args) =
     Send (if args = [] then call_message i f else call_message_with i f args)"
| "lower (Wamp_subscribe ev) = Send (subscribe_message ev)"
| "lower (Wamp_unsubscribe ev) = Send (unsubscribe_message ev)"

lemma wamp_perform_lower: "wamp_perform net get_params q = perform net get_params (lower q)"
  by (cases q) (simp_all add: fun_eq_iff wamp_run_def wamp_stop_def wamp_call_def wamp_subscribe_def
      wamp_unsubscribe_def)

lemma wamp_performs_lower:
  "fold (wamp_perform net get_params) qs s = fold (perform net get_params) (map lower qs) s"
  by (induction qs arbitrary: s) (simp_all add: wamp_perform_lower)

text \<open>A new handler with the user's five callbacks.\<close>

definition with_wamp_callbacks ::
  "'w connection_callback option \<Rightarrow> 'w connection_callback option \<Rightarrow> 'w wamp_call_result_callback option \<Rightarrow>
     'w wamp_call_error_callback option \<Rightarrow> 'w wamp_event_callback option \<Rightarrow>
     ('e, 'n, 'k, 'w) wamp_handler \<Rightarrow> ('e, 'n, 'k, 'w) wamp_handler" where
  "with_wamp_callbacks c d r x v s =
     register_wamp_on_connected c (register_wamp_on_disconnected d (register_call_result_callback r
       (register_call_error_callback x (register_event_callback v s))))"

lemma new_wamp_handler:
  "with_wamp_callbacks c d r x v (lcu_wamp_handler js e w) =
     with_callbacks (Some (\<lambda>m. lambda (on_message js m))) (Some (lambda on_connected))
       (Some (lambda on_disconnected))
       (lcu_websocket_handler e
         \<lparr>m_on_connected_callback = c, m_on_disconnected_callback = d, m_on_call_result_callback = r,
          m_on_call_error_callback = x, m_on_event_callback = v, program = w\<rparr>)"
  by (simp add: with_wamp_callbacks_def register_wamp_on_connected_def register_wamp_on_disconnected_def
      register_call_result_callback_def register_call_error_callback_def register_event_callback_def
      with_callbacks_def lcu_wamp_handler_def register_message_callback_def
      register_on_connected_callback_def register_on_disconnected_callback_def lcu_websocket_handler_def)

text \<open>How the reader sees the code's messages, for any texts.\<close>

lemma read_call_message:
  assumes "plain i" and "plain f"
  shows "read_wamp (call_message i f) = Some (5, [i, f])"
proof -
  have "read_wamp (call_message i f) = map_option (Pair 5) (read_rest Next
      ('', '' @ [quote] @ i @ [quote] @ ('', '' @ [quote] @ f @ [quote] @ '']'')))"
    using read_wamp_number [of 5 "[quote] @ i @ [quote] @ ('', '' @ [quote] @ f @ [quote] @ '']'')"]
    by (simp add: call_message_def)
  also have "\<dots> = Some (5, [i, f])"
    by (simp only: read_string [OF assms(1)] read_string [OF assms(2)]) simp
  finally show ?thesis .
qed

lemma read_call_message_with:
  "read_wamp (call_message_with i f args) = map_option (Pair 2) (read_rest Next
      ('', '' @ [quote] @ i @ [quote] @ ('', '' @ [quote] @ f @ [quote] @ (argument_list args @ '']''))))"
  using read_wamp_number [of 2 "[quote] @ i @ [quote] @ ('', '' @ [quote] @ f @ [quote] @ (argument_list args @ '']''))"]
  by (simp add: call_message_with_def)

subsection \<open>A small JSON for the witnesses\<close>

text \<open>Texts are parsed by \<open>read_wamp\<close>; a value is the number, a string or the array.\<close>

datatype json_value = Num nat | Str string | Arr "json_value list"

definition json_error :: exn where
  "json_error = Poco Other_poco_exception ''Invalid access''"

definition small_json :: "(json_value, json_value list) poco_json" where
  "small_json =
     \<lparr>json_parse = (\<lambda>m. case read_wamp m of None \<Rightarrow> Inl json_error
        | Some (n, xs) \<Rightarrow> Inr (Arr (Num n # map Str xs))),
      json_array = (\<lambda>v. case v of Arr vs \<Rightarrow> Inr vs | _ \<Rightarrow> Inl json_error),
      json_get = (\<lambda>vs i. if i < length vs then Inr (vs ! i) else Inl json_error),
      json_to_int = (\<lambda>v. case v of Num n \<Rightarrow> Inr (word_of_nat n) | _ \<Rightarrow> Inl json_error),
      json_to_string = (\<lambda>v. case v of Str t \<Rightarrow> Inr t | _ \<Rightarrow> Inl json_error)\<rparr>"

lemma small_json_errors: "poco_errors small_json"
  by (auto simp: poco_errors_def small_json_def json_error_def split: option.splits json_value.splits if_splits)

text \<open>The program of the witnesses: a list of events.\<close>

definition logging_side :: "wamp_event list wamp_side" where
  "logging_side =
     \<lparr>m_on_connected_callback = Some (\<lambda>w. (Inr (), w @ [Wamp_connected])),
      m_on_disconnected_callback = Some (\<lambda>w. (Inr (), w @ [Wamp_disconnected])),
      m_on_call_result_callback = Some (\<lambda>i d w. (Inr (), w @ [Wamp_message (Call_result i d)])),
      m_on_call_error_callback = Some (\<lambda>i x d w. (Inr (), w @ [Wamp_message (Call_error i x d)])),
      m_on_event_callback = Some (\<lambda>n d w. (Inr (), w @ [Wamp_message (Event n d)])),
      program = []\<rparr>"

lemma logging_side_marks: "wamp_marks id logging_side"
  by (simp add: wamp_marks_def logging_side_def)

text \<open>\<open>[8, "e", "d"]\<close>\<close>

definition event_text :: string where
  "event_text = ''[8'' @ '', '' @ [quote] @ ''e'' @ [quote] @ '', '' @ [quote] @ ''d'' @ [quote] @ '']''"

lemma read_event_text: "read_wamp event_text = Some (8, [''e'', ''d''])"
  by (simp add: event_text_def isdigit_def quote_def backslash_def is_control_def decimal_def digit_val_def)

lemma event_text_nonempty: "event_text \<noteq> []"
  by (simp add: event_text_def)

subsection \<open>Properties\<close>

text \<open>C8. A call with arguments says what it means: when the identifier, the function and the arguments
  need no escapes, a reader of the message gets the type CALL (2) and exactly these texts in order.\<close>

theorem wamp_call_round_trip:
  assumes "plain i" and "plain f" and "list_all plain args"
  shows "read_wamp (call_message_with i f args) = Some (2, i # f # args)"
  by (simp only: read_call_message_with read_string [OF assms(1)] read_string [OF assms(2)]
      read_argument_list [OF assms(3)]) simp

theorem wamp_call_round_trip_witness:
  "read_wamp (call_message_with ''1'' ''GET'' [''a'', ''b'', []]) = Some (2, [''1'', ''GET'', ''a'', ''b'', []])"
  by (rule wamp_call_round_trip) (simp_all add: plain_def quote_def backslash_def is_control_def)

text \<open>A call without arguments is sent with the type of SUBSCRIBE: the reader gets 5 where the
  documentation of \<open>call\<close> promises CALL (2).\<close>

theorem wamp_call_without_arguments_is_subscribe:
  assumes "plain i" and "plain f"
  shows "read_wamp (call_message i f) = Some (wamp_code Type_subscribe, [i, f])"
  using read_call_message [OF assms] by simp

theorem wamp_call_without_arguments_is_subscribe_witness:
  "read_wamp (call_message ''1'' ''f'') = Some (5, [''1'', ''f''])"
  using wamp_call_without_arguments_is_subscribe [of "''1''" "''f''"]
  by (simp add: plain_def quote_def backslash_def is_control_def)

text \<open>C36. No SUBSCRIBE or UNSUBSCRIBE message is a JSON array, whatever the event's name: the closing
  bracket is missing. With it, a plain name would be read back.\<close>

theorem wamp_subscribe_unreadable:
  "read_wamp (subscribe_message ev) = None \<and> read_wamp (unsubscribe_message ev) = None \<and>
   (plain ev \<longrightarrow> read_wamp (subscribe_message ev @ '']'') = Some (5, [ev]) \<and>
                 read_wamp (unsubscribe_message ev @ '']'') = Some (6, [ev]))"
proof (intro conjI impI)
  have "last (subscribe_message ev) = quote" "last (unsubscribe_message ev) = quote"
    by (simp_all add: subscribe_message_def unsubscribe_message_def)
  then show "read_wamp (subscribe_message ev) = None" "read_wamp (unsubscribe_message ev) = None"
    using read_wamp_last by (metis not_Some_eq quote_chars(3) surj_pair)+
next
  assume "plain ev"
  then have r: "read_rest Next ('', '' @ [quote] @ ev @ [quote] @ '']'') = Some [ev]"
    by (simp only: read_string) simp
  show "read_wamp (subscribe_message ev @ '']'') = Some (5, [ev])"
    using read_wamp_number [of 5 "[quote] @ ev @ [quote] @ '']''"] r by (simp add: subscribe_message_def)
  show "read_wamp (unsubscribe_message ev @ '']'') = Some (6, [ev])"
    using read_wamp_number [of 6 "[quote] @ ev @ [quote] @ '']''"] r by (simp add: unsubscribe_message_def)
qed

theorem wamp_subscribe_unreadable_witness:
  "read_wamp (subscribe_message ''OnJsonApiEvent'') = None \<and>
   read_wamp (subscribe_message ''OnJsonApiEvent'' @ '']'') = Some (5, [''OnJsonApiEvent''])"
  using wamp_subscribe_unreadable [of "''OnJsonApiEvent''"]
  by (simp add: plain_def quote_def backslash_def is_control_def)

text \<open>C37. Nothing is escaped: an argument that contains a quote, a comma and a quote is read as two, so
  the League client gets a call with other arguments than the caller gave.\<close>

theorem wamp_unescaped_quotes:
  assumes "plain i" and "plain f" and "plain a" and "plain b" and "list_all plain args"
  shows "read_wamp (call_message_with i f ((a @ [quote] @ '', '' @ [quote] @ b) # args)) =
     Some (2, i # f # a # b # args)"
proof -
  have "argument_list ((a @ [quote] @ '', '' @ [quote] @ b) # args) = argument_list (a # b # args)"
    by (cases args) simp_all
  then have "read_wamp (call_message_with i f ((a @ [quote] @ '', '' @ [quote] @ b) # args)) =
      read_wamp (call_message_with i f (a # b # args))"
    by (simp only: call_message_with_def)
  also have "\<dots> = Some (2, i # f # a # b # args)"
  proof -
    have p: "list_all plain (a # b # args)" using assms by simp
    show ?thesis
      by (simp only: read_call_message_with read_string [OF assms(1)] read_string [OF assms(2)]
          read_argument_list [OF p]) simp
  qed
  finally show ?thesis .
qed

theorem wamp_unescaped_quotes_witness:
  "read_wamp (call_message_with ''1'' ''f'' [''a'' @ [quote] @ '', '' @ [quote] @ ''b'']) =
     Some (2, [''1'', ''f'', ''a'', ''b''])"
  using wamp_unescaped_quotes [of "''1''" "''f''" "''a''" "''b''" "[]"]
  by (simp add: plain_def quote_def backslash_def is_control_def)

text \<open>C19. \<open>on_message\<close> calls at most one of the user's callbacks: the one registered for results, errors or events as
  the type in front is 3, 4 or 8, with the texts of the message in their order, and exactly when the text is a
  JSON array with one of these types and all the fields that the type calls for. The callback's state is kept;
  its exception goes on to the caller unless POCO defined it. Everything else is dropped without a trace.
  (POCO's JSON classes throw POCO's exceptions.)\<close>

theorem wamp_dispatch:
  assumes "poco_errors js"
  shows "on_message js m s = (case Option.bind (message_of js m) (\<lambda>msg. callback_of msg s) of
      None \<Rightarrow> (Ok (), s)
    | Some f \<Rightarrow> called f s)"
  by (rule on_message_eq [OF assms])

text \<open>The witness: a CALLERROR message, whose callback throws.\<close>

definition error_text :: string where
  "error_text = ''[4'' @ '', '' @ [quote] @ ''i'' @ [quote] @ '', '' @ [quote] @ ''x'' @ [quote] @
     '', '' @ [quote] @ ''d'' @ [quote] @ '']''"

definition failing_side :: "wamp_event list wamp_side" where
  "failing_side = logging_side\<lparr>m_on_call_error_callback :=
     Some (\<lambda>i x d w. (Inl (Foreign 1), w @ [Wamp_message (Call_error i x d)]))\<rparr>"

theorem wamp_dispatch_witness:
  "on_message small_json error_text failing_side =
     (Throw (Foreign 1), failing_side\<lparr>program := [Wamp_message (Call_error ''i'' ''x'' ''d'')]\<rparr>)"
proof -
  have "read_wamp error_text = Some (4, [''i'', ''x'', ''d''])"
    by (simp add: error_text_def isdigit_def quote_def backslash_def is_control_def decimal_def digit_val_def)
  then have "message_of small_json error_text = Some (Call_error ''i'' ''x'' ''d'')"
    by (simp add: message_of_def small_json_def field_def numeral_eq_Suc error_text_def)
  then show ?thesis
    by (simp add: wamp_dispatch [OF small_json_errors] called_def failing_side_def logging_side_def)
qed

text \<open>C3. The WAMP user sees sessions too: on a new handler with the user's five callbacks, after any calls
  of \<open>run\<close>, \<open>stop\<close>, \<open>call\<close>, \<open>subscribe\<close> and \<open>unsubscribe\<close>, connected and disconnected events alternate,
  and results, errors and events come only between a connected event and the next disconnected one.\<close>

theorem wamp_session_protocol:
  assumes "poco_errors js" and "tr w = []"
    and "wamp_marks tr \<lparr>m_on_connected_callback = c, m_on_disconnected_callback = d,
           m_on_call_result_callback = r, m_on_call_error_callback = x, m_on_event_callback = v, program = w\<rparr>"
  shows "let s = fold (wamp_perform net get_params) requests
             (with_wamp_callbacks c d r x v (lcu_wamp_handler js e w))
         in session False (map shape (tr (program (user s)))) = Some (m_is_state_connected s)"
proof -
  let ?s = "fold (wamp_perform net get_params) requests (with_wamp_callbacks c d r x v (lcu_wamp_handler js e w))"
  have "in_session (wamp_marks tr) (\<lambda>s. map shape (tr (program s))) ?s"
    unfolding wamp_performs_lower new_wamp_handler
    using assms(2) by (intro performs_in_session new_in_session wamp_lambdas_mark assms) simp
  then show ?thesis by (simp add: in_session_def)
qed

theorem wamp_session_protocol_witness:
  "let s = fold (wamp_perform scripted_ws found)
       [Wamp_run [False, False], Wamp_subscribe ''OnJsonApiEvent'', Wamp_run [False, True]]
       (with_wamp_callbacks (m_on_connected_callback logging_side) (m_on_disconnected_callback logging_side)
         (m_on_call_result_callback logging_side) (m_on_call_error_callback logging_side)
         (m_on_event_callback logging_side) (lcu_wamp_handler small_json [Frame event_text 0x81] []))
   in session False (map shape (program (user s))) = Some (m_is_state_connected s)"
  using wamp_session_protocol [OF small_json_errors, of id "[]"
      "m_on_connected_callback logging_side" "m_on_disconnected_callback logging_side"
      "m_on_call_result_callback logging_side" "m_on_call_error_callback logging_side"
      "m_on_event_callback logging_side" scripted_ws found
      "[Wamp_run [False, False], Wamp_subscribe ''OnJsonApiEvent'', Wamp_run [False, True]]"
      "[Frame event_text 0x81]"]
    logging_side_marks
  by (simp add: logging_side_def)

text \<open>The result of \<open>call\<close>, \<open>subscribe\<close> and \<open>unsubscribe\<close>, when they return, says whether the handler was
  connected, not whether anything was understood: on a connected handler they are true as soon as
  POCO takes the frame.\<close>

theorem wamp_send_result:
  assumes "handler_inv s"
  shows "(wamp_call net i f args s = (Ok b, t) \<longrightarrow> b = is_connected s) \<and>
     (wamp_subscribe net ev s = (Ok b, t) \<longrightarrow> b = is_connected s) \<and>
     (wamp_unsubscribe net ev s = (Ok b, t) \<longrightarrow> b = is_connected s) \<and>
     \<not> is_throw (fst (wamp_call net i f args s)) \<and> \<not> is_throw (fst (wamp_subscribe net ev s)) \<and>
     \<not> is_throw (fst (wamp_unsubscribe net ev s))"
  unfolding wamp_call_def wamp_subscribe_def wamp_unsubscribe_def
  using sender.result_is_connected [OF assms] sender.never_throws [OF assms] by blast

theorem wamp_send_result_witness:
  "wamp_subscribe scripted_ws ''e''
     (with_wamp_callbacks None None None None None (lcu_wamp_handler small_json [] ())) =
   (Ok False, with_wamp_callbacks None None None None None (lcu_wamp_handler small_json [] ()))"
proof -
  let ?s = "with_wamp_callbacks None None None None None (lcu_wamp_handler small_json [] ())
     :: (incoming list, unit, unit, unit) wamp_handler"
  have i: "handler_inv ?s" "\<not> is_connected ?s"
    by (simp_all add: new_wamp_handler with_callbacks_def register_message_callback_def handler_inv_def
        is_connected_def register_on_connected_callback_def register_on_disconnected_callback_def
        lcu_websocket_handler_def)
  from i(2) have r: "wamp_subscribe scripted_ws ''e'' ?s = (Ok False, ?s)"
    by (simp add: wamp_subscribe_def not_connected_calls)
  with wamp_send_result [OF i(1)] show ?thesis by blast
qed

end
