(* ===== verification/Lcu_Websocket_Threads.thy ===== *)
theory Lcu_Websocket_Threads
  imports Lcu_Websocket
begin

text \<open>
  The threads on one \<open>Lcu_websocket_handler\<close>: the one that calls \<open>run\<close>, once or again and again, any
  number of others that call \<open>send_message\<close> and \<open>stop\<close>, as the class's documentation asks, and the world
  outside, which moves on its own. A step is one access to \<open>m_stop\<close>, one call of \<open>receiveFrame\<close>, one
  callback or notification, one sleep, one access to \<open>m_websocket\<close> outside the mutex, or a block under
  \<open>m_socket_mutex\<close>; the block of \<open>reconnect\<close> is four steps (drop the dead client, search, make the
  new one, connect it), in which the thread in \<open>run\<close> keeps the mutex. Between any two steps of one
  thread the others may run: in \<open>send_message\<close> the lock is released between the test
  \<open>is_connected()\<close> and the use of the pointer, and \<open>stop\<close> uses the pointer without it. A call of
  \<open>receiveFrame\<close> may wait; then the thread in \<open>run\<close> has no step.
\<close>

subsection \<open>Control points\<close>

datatype main_pc =
    M_start                \<comment> \<open>entry of \<open>run\<close>\<close>
  | M_check                \<comment> \<open>\<open>if (m_stop)\<close>\<close>
  | M_reset                \<comment> \<open>\<open>m_websocket.reset()\<close> under the lock\<close>
  | M_leave                \<comment> \<open>the last notification, then \<open>break\<close>\<close>
  | M_test                 \<comment> \<open>\<open>if (is_connected())\<close>\<close>
  | M_receive              \<comment> \<open>entry of \<open>m_websocket->receive_message()\<close>\<close>
  | M_frames "8 word" string \<comment> \<open>its loop, after so many frames that left this in the buffer\<close>
  | M_deliver string       \<comment> \<open>the message callback\<close>
  | M_lost                 \<comment> \<open>\<open>notify_connection_state_changed(false)\<close>\<close>
  | M_reconnect            \<comment> \<open>entry of \<open>reconnect()\<close>, which takes the lock\<close>
  | M_lookup               \<comment> \<open>in it: the search for the League client\<close>
  | M_create lcu_parameters \<comment> \<open>in it: the new client\<close>
  | M_connect              \<comment> \<open>in it: \<open>m_websocket->start()\<close>\<close>
  | M_found                \<comment> \<open>\<open>notify_connection_state_changed(true)\<close>\<close>
  | M_sleep                \<comment> \<open>\<open>sleep_for(event_loop_delay)\<close> in the handler\<close>
  | M_done                 \<comment> \<open>\<open>run\<close> has returned, and may be called again\<close>
  | M_ended "exn abort"

datatype client_pc =
    C_idle
  | C_send string          \<comment> \<open>\<open>is_connected()\<close> was true in \<open>send_message\<close>\<close>
  | C_stop                 \<comment> \<open>\<open>m_stop\<close> is set in \<open>stop\<close>\<close>
  | C_exit                 \<comment> \<open>\<open>is_connected()\<close> was true in \<open>stop\<close>\<close>
  | C_call                 \<comment> \<open>in \<open>m_websocket->send_message("Exit")\<close>, the pointer has been read\<close>
  | C_dangling             \<comment> \<open>there, and the client it pointed to has been destroyed\<close>
  | C_ended "exn abort"

text \<open>Where a thread goes on after an operation: an exception leaves \<open>noexcept\<close> code.\<close>

fun main_goes :: "main_pc \<Rightarrow> 'a result \<Rightarrow> main_pc" where
  "main_goes pc (Ok a) = pc"
| "main_goes pc (Throw x) = M_ended (Terminate x)"
| "main_goes pc (Abort b) = M_ended b"

text \<open>The same in the \<open>try\<close> block of \<open>reconnect_and_notify\<close>, and in the one of \<open>receive_message\<close>, whose
  handler is empty.\<close>

fun main_catches :: "main_pc \<Rightarrow> 'a result \<Rightarrow> main_pc" where
  "main_catches pc (Ok a) = pc"
| "main_catches pc (Throw x) = M_sleep"
| "main_catches pc (Abort b) = M_ended b"

fun main_swallows :: "main_pc \<Rightarrow> 'a result \<Rightarrow> main_pc" where
  "main_swallows pc (Ok a) = pc"
| "main_swallows pc (Throw x) = M_check"
| "main_swallows pc (Abort b) = M_ended b"

text \<open>In \<open>reconnect\<close> the thread in \<open>run\<close> holds \<open>m_socket_mutex\<close> from step to step.\<close>

fun locked :: "main_pc \<Rightarrow> bool" where
  "locked M_lookup = True"
| "locked (M_create p) = True"
| "locked M_connect = True"
| "locked _ = False"

fun after_lookup :: "lcu_parameters result \<Rightarrow> main_pc" where
  "after_lookup (Ok p) = M_create p"
| "after_lookup (Throw x) = M_sleep"
| "after_lookup (Abort b) = M_ended b"

lemma main_goes_split:
  "P (main_goes pc r) \<longleftrightarrow> (is_ok r \<longrightarrow> P pc) \<and> (\<forall>x. r = Throw x \<longrightarrow> P (M_ended (Terminate x))) \<and>
     (\<forall>b. r = Abort b \<longrightarrow> P (M_ended b))"
  by (cases r) simp_all

lemma main_catches_split:
  "P (main_catches pc r) \<longleftrightarrow> (is_ok r \<longrightarrow> P pc) \<and> (is_throw r \<longrightarrow> P M_sleep) \<and> (\<forall>b. r = Abort b \<longrightarrow> P (M_ended b))"
  by (cases r) simp_all

lemma main_swallows_split:
  "P (main_swallows pc r) \<longleftrightarrow> (is_ok r \<longrightarrow> P pc) \<and> (is_throw r \<longrightarrow> P M_check) \<and> (\<forall>b. r = Abort b \<longrightarrow> P (M_ended b))"
  by (cases r) simp_all

lemma after_lookup_split:
  "P (after_lookup r) \<longleftrightarrow> (\<forall>p. r = Ok p \<longrightarrow> P (M_create p)) \<and> (is_throw r \<longrightarrow> P M_sleep) \<and>
     (\<forall>b. r = Abort b \<longrightarrow> P (M_ended b))"
  by (cases r) simp_all

lemma main_goes_split_asm:
  "P (main_goes pc r) \<longleftrightarrow> \<not> (is_ok r \<and> \<not> P pc \<or> (\<exists>x. r = Throw x \<and> \<not> P (M_ended (Terminate x))) \<or>
     (\<exists>b. r = Abort b \<and> \<not> P (M_ended b)))"
  by (cases r) simp_all

lemma main_catches_split_asm:
  "P (main_catches pc r) \<longleftrightarrow> \<not> (is_ok r \<and> \<not> P pc \<or> is_throw r \<and> \<not> P M_sleep \<or> (\<exists>b. r = Abort b \<and> \<not> P (M_ended b)))"
  by (cases r) simp_all

lemma main_swallows_split_asm:
  "P (main_swallows pc r) \<longleftrightarrow> \<not> (is_ok r \<and> \<not> P pc \<or> is_throw r \<and> \<not> P M_check \<or> (\<exists>b. r = Abort b \<and> \<not> P (M_ended b)))"
  by (cases r) simp_all

lemma after_lookup_split_asm:
  "P (after_lookup r) \<longleftrightarrow> \<not> ((\<exists>p. r = Ok p \<and> \<not> P (M_create p)) \<or> is_throw r \<and> \<not> P M_sleep \<or>
     (\<exists>b. r = Abort b \<and> \<not> P (M_ended b)))"
  by (cases r) simp_all

lemmas goes_splits = main_goes_split main_goes_split_asm main_catches_split main_catches_split_asm
  main_swallows_split main_swallows_split_asm after_lookup_split after_lookup_split_asm

text \<open>Entering \<open>receive_message\<close>, and after a round of its loop.\<close>

definition enter_receive :: "('e, 'n, 'k, 'w) ws_handler \<Rightarrow> main_pc" where
  "enter_receive h = (case m_websocket h of
       None \<Rightarrow> M_ended Null_dereference
     | Some c \<Rightarrow> if wc_websocket c = None then M_check else M_frames 0 [])"

fun after_round :: "8 word \<Rightarrow> (string \<times> bool) result \<Rightarrow> main_pc" where
  "after_round i (Ok (buffer, full)) = (if full then M_deliver buffer else M_frames (i + 1) buffer)"
| "after_round i (Throw x) = M_check"
| "after_round i (Abort b) = M_ended b"

lemma after_round_Ok: "after_round i (Ok p) = (if snd p then M_deliver (fst p) else M_frames (i + 1) (fst p))"
  by (cases p) simp

text \<open>A call of \<open>receiveFrame\<close> that has to wait.\<close>

definition frame_waits :: "('e, 'n, 'k) poco_ws \<Rightarrow> 8 word \<Rightarrow> ('e, 'n, 'k, 'w) ws_handler \<Rightarrow> bool" where
  "frame_waits net i h \<longleftrightarrow> i < max_frames_per_message \<and>
     (case m_websocket h of
        None \<Rightarrow> False
      | Some c \<Rightarrow> (case wc_websocket c of None \<Rightarrow> False | Some k \<Rightarrow> \<not> ws_ready net k (outside h)))"

fun client_goes :: "'a result \<Rightarrow> client_pc" where
  "client_goes (Ok a) = C_idle"
| "client_goes (Throw x) = C_ended (Terminate x)"
| "client_goes (Abort b) = C_ended b"

record ('e, 'n, 'k, 'w) threads =
  handler :: "('e, 'n, 'k, 'w) ws_handler"
  main :: main_pc
  clients :: "client_pc list"

text \<open>The program runs as long as no thread has ended it.\<close>

fun main_alive :: "main_pc \<Rightarrow> bool" where
  "main_alive (M_ended b) = False"
| "main_alive _ = True"

fun client_alive :: "client_pc \<Rightarrow> bool" where
  "client_alive (C_ended b) = False"
| "client_alive _ = True"

subsection \<open>Steps\<close>

inductive main_step ::
  "('e, 'n, 'k) poco_ws \<Rightarrow> ('e, lcu_parameters) ext \<Rightarrow>
     ('e, 'n, 'k, 'w) ws_handler \<times> main_pc \<Rightarrow> ('e, 'n, 'k, 'w) ws_handler \<times> main_pc \<Rightarrow> bool"
  for net get_params where
  run: "main_step net get_params (h, M_start) (h\<lparr>m_stop := False\<rparr>, M_check)"
| check: "main_step net get_params (h, M_check) (h, if m_stop h then M_reset else M_test)"
| reset: "reset_websocket net h = (r, h') \<Longrightarrow>
    main_step net get_params (h, M_reset) (h', main_goes M_leave r)"
| leave: "notify_connection_state_changed False h = (r, h') \<Longrightarrow>
    main_step net get_params (h, M_leave) (h', main_goes M_done r)"
| test: "main_step net get_params (h, M_test) (h, if is_connected h then M_receive else M_lost)"
| receive: "main_step net get_params (h, M_receive) (h, enter_receive h)"
| frame: "on_socket (receive_round net i message_buffer) h = (r, h') \<Longrightarrow> \<not> frame_waits net i h \<Longrightarrow>
    main_step net get_params (h, M_frames i message_buffer) (h', after_round i r)"
| deliver: "on_user (map_option (\<lambda>f. f msg) (m_on_message_received h)) h = (r, h') \<Longrightarrow>
    main_step net get_params (h, M_deliver msg) (h', main_swallows M_check r)"
| lost: "notify_connection_state_changed False h = (r, h') \<Longrightarrow>
    main_step net get_params (h, M_lost) (h', main_goes M_reconnect r)"
| drop: "drop_dead_client net h = (r, h') \<Longrightarrow>
    main_step net get_params (h, M_reconnect)
      (h', main_catches (if m_websocket h' = None then M_lookup else M_found) r)"
| lookup: "on_outside (lift_ext get_params) h = (r, h') \<Longrightarrow>
    main_step net get_params (h, M_lookup) (h', after_lookup r)"
| create: "create_client net p h = (r, h') \<Longrightarrow>
    main_step net get_params (h, M_create p) (h', main_catches M_connect r)"
| connect: "on_socket (ws_start net) h = (r, h') \<Longrightarrow>
    main_step net get_params (h, M_connect) (h', main_catches M_found r)"
| found: "notify_connection_state_changed True h = (r, h') \<Longrightarrow>
    main_step net get_params (h, M_found) (h', main_catches M_check r)"
| sleep: "sleep_for net event_loop_delay h = (r, h') \<Longrightarrow>
    main_step net get_params (h, M_sleep) (h', main_goes M_check r)"
| again: "main_step net get_params (h, M_done) (h, M_start)"

text \<open>A step of a calling thread; \<open>free\<close> says that it can take the mutex. \<open>m_stop\<close> is written without it, and so is
  the pointer read in \<open>stop\<close>.\<close>

inductive client_step ::
  "('e, 'n, 'k) poco_ws \<Rightarrow> bool \<Rightarrow>
     ('e, 'n, 'k, 'w) ws_handler \<times> client_pc \<Rightarrow> ('e, 'n, 'k, 'w) ws_handler \<times> client_pc \<Rightarrow> bool"
  for net free where
  send: "free \<Longrightarrow> client_step net free (h, C_idle) (h, if is_connected h then C_send m else C_idle)"
| send_locked: "free \<Longrightarrow> on_socket (ws_send_message net m) h = (r, h') \<Longrightarrow>
    client_step net free (h, C_send m) (h', client_goes r)"
| stop: "client_step net free (h, C_idle) (h\<lparr>m_stop := True\<rparr>, C_stop)"
| stop_test: "free \<Longrightarrow> client_step net free (h, C_stop) (h, if is_connected h then C_exit else C_idle)"
| exit: "client_step net free (h, C_exit) (h, if m_websocket h = None then C_ended Null_dereference else C_call)"
| call: "on_socket (ws_send_message net ''Exit'') h = (r, h') \<Longrightarrow>
    client_step net free (h, C_call) (h', client_goes r)"
| dangling: "client_step net free (h, C_dangling) (h, C_ended Use_after_free)"

text \<open>The thread in \<open>run\<close> destroys the client in \<open>m_websocket.reset()\<close> and when \<open>reconnect\<close> replaces a dead one.
  A call of \<open>stop\<close> that is inside the client is left with a dangling pointer.\<close>

definition destroys :: "('e, 'n, 'k, 'w) ws_handler \<Rightarrow> main_pc \<Rightarrow> bool" where
  "destroys h pc \<longleftrightarrow> m_websocket h \<noteq> None \<and> (pc = M_reset \<or> pc = M_reconnect \<and> \<not> is_connected h)"

fun dangle :: "client_pc \<Rightarrow> client_pc" where
  "dangle C_call = C_dangling"
| "dangle pc = pc"

definition left_behind :: "('e, 'n, 'k, 'w) ws_handler \<Rightarrow> main_pc \<Rightarrow> client_pc list \<Rightarrow> client_pc list" where
  "left_behind h pc cs = (if destroys h pc then map dangle cs else cs)"

text \<open>\<open>peer\<close>: how the world outside moves while no thread of the program does anything to it, when
  frames arrive, or the League client comes and goes.\<close>

inductive thread_step ::
  "('e, 'n, 'k) poco_ws \<Rightarrow> ('e, lcu_parameters) ext \<Rightarrow> ('e \<Rightarrow> 'e \<Rightarrow> bool) \<Rightarrow>
     ('e, 'n, 'k, 'w) threads \<Rightarrow> ('e, 'n, 'k, 'w) threads \<Rightarrow> bool"
  for net get_params peer where
  main_turn: "main_step net get_params (handler s, main s) (h, pc) \<Longrightarrow> list_all client_alive (clients s) \<Longrightarrow>
    thread_step net get_params peer s
      (s\<lparr>handler := h, main := pc, clients := left_behind (handler s) (main s) (clients s)\<rparr>)"
| client_turn: "i < length (clients s) \<Longrightarrow>
    client_step net (\<not> locked (main s)) (handler s, clients s ! i) (h, pc) \<Longrightarrow>
    main_alive (main s) \<Longrightarrow> list_all client_alive (clients s) \<Longrightarrow>
    thread_step net get_params peer s (s\<lparr>handler := h, clients := (clients s)[i := pc]\<rparr>)"
| world_turn: "peer (outside (handler s)) e \<Longrightarrow> main_alive (main s) \<Longrightarrow> list_all client_alive (clients s) \<Longrightarrow>
    thread_step net get_params peer s (s\<lparr>handler := (handler s)\<lparr>outside := e\<rparr>\<rparr>)"

definition start_threads :: "nat \<Rightarrow> ('e, 'n, 'k, 'w) ws_handler \<Rightarrow> ('e, 'n, 'k, 'w) threads" where
  "start_threads n h = \<lparr>handler = h, main = M_start, clients = replicate n C_idle\<rparr>"

text \<open>The states the threads can reach.\<close>

inductive reaches ::
  "('e, 'n, 'k) poco_ws \<Rightarrow> ('e, lcu_parameters) ext \<Rightarrow> ('e \<Rightarrow> 'e \<Rightarrow> bool) \<Rightarrow>
     ('e, 'n, 'k, 'w) threads \<Rightarrow> ('e, 'n, 'k, 'w) threads \<Rightarrow> bool"
  for net get_params peer s where
  here: "reaches net get_params peer s s"
| further: "reaches net get_params peer s t \<Longrightarrow> thread_step net get_params peer t u \<Longrightarrow>
    reaches net get_params peer s u"

inductive_cases main_stepE: "main_step net get_params (h, pc) (h', pc')"
inductive_cases client_stepE: "client_step net free (h, pc) (h', pc')"
inductive_cases thread_stepE: "thread_step net get_params peer s t"

text \<open>An assertion that every step keeps holds wherever the threads get.\<close>

lemma reaches_invariant:
  assumes "reaches net get_params peer s t" and "P s"
    and "\<And>t u. P t \<Longrightarrow> thread_step net get_params peer t u \<Longrightarrow> P u"
  shows "P t"
  using assms(1) by induction (use assms(2,3) in blast)+

text \<open>An assertion about the handler and the control point of the thread in \<open>run\<close>: its own steps keep it, and so
  does any change of \<open>m_stop\<close> and of what is outside.\<close>

definition main_invariant ::
  "('e, 'n, 'k) poco_ws \<Rightarrow> ('e, lcu_parameters) ext \<Rightarrow> (('e, 'n, 'k, 'w) ws_handler \<Rightarrow> main_pc \<Rightarrow> bool) \<Rightarrow> bool" where
  "main_invariant net get_params P \<longleftrightarrow>
     (\<forall>h pc h' pc'. P h pc \<longrightarrow> main_step net get_params (h, pc) (h', pc') \<longrightarrow> P h' pc') \<and>
     (\<forall>h pc b e. P h pc \<longrightarrow> P (h\<lparr>m_stop := b, outside := e\<rparr>) pc)"

subsection \<open>What the other threads can change\<close>

text \<open>A calling thread changes the environment and \<open>m_stop\<close>, never the client object.\<close>

lemma send_frame:
  assumes "on_socket (ws_send_message net m) h = (r, h')"
  shows "\<exists>e. h' = h\<lparr>outside := e\<rparr>"
proof (cases "m_websocket h")
  case None
  with assms have "h' = h\<lparr>outside := outside h\<rparr>" by (simp add: on_socket_def)
  then show ?thesis ..
next
  case (Some c)
  obtain q c' e' where se: "ws_send_message net m (c, outside h) = (q, (c', e'))" by (metis prod.collapse)
  with ws_send_law [OF se] have "on_socket (ws_send_message net m) h = (q, h\<lparr>m_websocket := Some c, outside := e'\<rparr>)"
    using on_socket_Some [of h c "ws_send_message net m" q c' e'] Some by simp
  with assms have "h' = h\<lparr>m_websocket := Some c, outside := e'\<rparr>" by simp
  then have "h' = h\<lparr>outside := e'\<rparr>" by (simp only: same_websocket [OF Some])
  then show ?thesis ..
qed

lemma client_step_frame:
  assumes "client_step net free (h, pc) (h', pc')"
  shows "\<exists>e b. h' = h\<lparr>m_stop := b, outside := e\<rparr>"
proof -
  from assms have "h' = h \<or> h' = h\<lparr>m_stop := True\<rparr> \<or> (\<exists>e. h' = h\<lparr>outside := e\<rparr>)"
    by (elim client_stepE) (auto dest: send_frame)
  moreover have "h = h\<lparr>m_stop := m_stop h, outside := outside h\<rparr>"
    "h\<lparr>m_stop := True\<rparr> = h\<lparr>m_stop := True, outside := outside h\<rparr>"
    "h\<lparr>outside := e\<rparr> = h\<lparr>m_stop := m_stop h, outside := e\<rparr>" for e
    by simp_all
  ultimately show ?thesis by metis
qed

text \<open>It never takes a stop request back.\<close>

lemma client_step_keeps_stop:
  assumes "client_step net free (h, pc) (h', pc')" and "m_stop h"
  shows "m_stop h'"
  using assms by (elim client_stepE) (auto dest: send_frame)

lemma main_invariantD:
  assumes "main_invariant net get_params P" and "thread_step net get_params peer s t" and "P (handler s) (main s)"
  shows "P (handler t) (main t)"
  using assms(2)
proof (cases rule: thread_step.cases)
  case (main_turn h pc)
  with assms(1,3) show ?thesis by (simp add: main_invariant_def)
next
  case (client_turn i h pc)
  from client_step_frame [OF client_turn(3)] obtain e b where "h = (handler s)\<lparr>m_stop := b, outside := e\<rparr>" by blast
  with assms(1,3) client_turn(1) show ?thesis by (simp add: main_invariant_def)
next
  case (world_turn e)
  have "(handler s)\<lparr>outside := e\<rparr> = (handler s)\<lparr>m_stop := m_stop (handler s), outside := e\<rparr>" by simp
  with assms(1,3) world_turn(1) show ?thesis unfolding main_invariant_def by (metis threads.select_convs(1,2)
    threads.surjective threads.update_convs(1))
qed

lemma reaches_main_invariant:
  assumes "reaches net get_params peer s t" and "main_invariant net get_params P" and "P (handler s) (main s)"
  shows "P (handler t) (main t)"
  using assms(1,3) main_invariantD [OF assms(2)]
  by (rule reaches_invariant [where P = "\<lambda>s. P (handler s) (main s)"])

lemma main_invariantI:
  assumes "\<And>h pc h' pc'. P h pc \<Longrightarrow> main_step net get_params (h, pc) (h', pc') \<Longrightarrow> P h' pc'"
    and "\<And>h pc b e. P h pc \<Longrightarrow> P (h\<lparr>m_stop := b, outside := e\<rparr>) pc"
  shows "main_invariant net get_params P"
  using assms by (auto simp: main_invariant_def)

subsection \<open>The main thread is safe\<close>

text \<open>From the test of the connection to the last frame the client is there and has its socket: no other
  thread resets it.\<close>

fun receiving :: "main_pc \<Rightarrow> bool" where
  "receiving M_receive = True"
| "receiving (M_frames i b) = True"
| "receiving _ = False"

definition main_safe :: "('e, 'n, 'k, 'w) ws_handler \<Rightarrow> main_pc \<Rightarrow> bool" where
  "main_safe h pc \<longleftrightarrow> handler_inv h \<and> (receiving pc \<longrightarrow> is_connected h) \<and> (locked pc \<longrightarrow> \<not> is_connected h) \<and>
     (pc = M_connect \<longrightarrow> (\<exists>c. m_websocket h = Some c \<and> ws_idle c)) \<and>
     (\<forall>b. pc = M_ended b \<longrightarrow> (\<exists>x. b = Terminate x))"

text \<open>The parts of \<open>reconnect\<close>.\<close>

lemma drop_frame:
  assumes "handler_inv h" and "drop_dead_client net h = (r, h')"
  shows "r = Ok () \<and> h' = (if is_connected h then h else h\<lparr>m_websocket := None\<rparr>)"
  using drop_dead_connected [of h net] drop_dead_disconnected [OF assms(1), of net] assms(2) by auto

lemma lookup_frame:
  assumes "on_outside (lift_ext f) h = (r, h')"
  shows "h' = h\<lparr>outside := outside h'\<rparr> \<and> \<not> is_abort r"
  using assms by (auto simp: on_outside_def lift_ext_def split: prod.splits sum.splits)

lemma create_frame:
  assumes "create_client net p h = (r, h')"
  shows "only_socket h h' \<and> \<not> is_abort r \<and> (is_ok r \<longrightarrow> (\<exists>c. m_websocket h' = Some c \<and> ws_idle c)) \<and>
     (is_throw r \<longrightarrow> m_websocket h' = m_websocket h)"
  using assms by (auto simp: create_client_eq only_socket_def lcu_client_idle split: prod.splits sum.splits)

lemma connect_frame:
  assumes "m_websocket h = Some c" and "ws_idle c" and "on_socket (ws_start net) h = (r, h')"
  shows "only_socket h h' \<and> handler_inv h' \<and> \<not> is_abort r \<and> (is_connected h' \<longleftrightarrow> is_ok r)"
proof -
  obtain q c' e where st: "ws_start net (c, outside h) = (q, (c', e))" by (metis prod.collapse)
  from start_new_client [OF assms(2,1) st] assms(3) show ?thesis
    by (auto simp: only_socket_def handler_inv_def is_connected_def)
qed

lemma connected_socket:
  assumes "handler_inv h" and "is_connected h"
  obtains c k where "m_websocket h = Some c" and "wc_websocket c = Some k" and "ws_is_connected c"
  using assms by (auto simp: handler_inv_def is_connected_def ws_inv_def ws_is_connected_def split: option.splits)

text \<open>A round of the receive loop: it leaves the client there; a connected client stays as it is unless the round throws.\<close>

lemma frame_round:
  assumes "handler_inv h" and "is_connected h" and "on_socket (receive_round net i buf) h = (r, h')"
  shows "only_socket h h' \<and> handler_inv h' \<and> \<not> is_abort r \<and> (is_ok r \<longrightarrow> m_websocket h' = m_websocket h) \<and>
     (is_ok r \<longrightarrow> i < max_frames_per_message)"
proof -
  from assms(1,2) obtain c k where c: "m_websocket h = Some c" "wc_websocket c = Some k"
    by (rule connected_socket)
  obtain q c' e' where rr: "receive_round net i buf (c, outside h) = (q, (c', e'))" by (metis prod.collapse)
  from c(2) have "wc_websocket c \<noteq> None" by simp
  note fr = receive_round_frame [OF this rr]
  have "r = q" "h' = h\<lparr>m_websocket := Some c', outside := e'\<rparr>"
    using on_socket_Some [of h c "receive_round net i buf", OF c(1) rr] assms(3) by simp_all
  with fr c assms(1) show ?thesis
    by (cases q) (auto simp: only_socket_def handler_inv_def ws_inv_def)
qed

text \<open>The steps of \<open>reconnect\<close>, in one fact: they change the client and the environment only, keep the mutex or
  leave the block, and only the last one connects.\<close>

fun reconnecting :: "main_pc \<Rightarrow> bool" where
  "reconnecting M_reconnect = True"
| "reconnecting pc = locked pc"

text \<open>The steps to the end of the block under the mutex, at most.\<close>

fun block_left :: "main_pc \<Rightarrow> nat" where
  "block_left M_reconnect = 4"
| "block_left M_lookup = 3"
| "block_left (M_create p) = 2"
| "block_left M_connect = 1"
| "block_left _ = 0"

lemma reconnect_step:
  assumes "main_safe h pc" and "reconnecting pc" and "main_step net get_params (h, pc) (h', pc')"
  shows "only_socket h h' \<and> main_safe h' pc' \<and> block_left pc' < block_left pc \<and>
     (locked pc' \<or> pc' = M_found \<or> pc' = M_sleep) \<and> (\<not> is_connected h \<and> is_connected h' \<longrightarrow> pc' = M_found)"
  using assms(3)
proof (cases rule: main_step.cases)
  case (drop r)
  from assms(1) have "handler_inv h" by (simp add: main_safe_def)
  from drop_frame [OF this drop(3)] drop(1,2) \<open>handler_inv h\<close> show ?thesis
    by (auto simp: main_safe_def handler_inv_def is_connected_def only_socket_def)
next
  case (lookup r)
  from lookup_frame [OF lookup(3)] obtain e where "h' = h\<lparr>outside := e\<rparr>" "\<not> is_abort r" by blast
  with lookup(1,2) assms(1) show ?thesis by (cases r) (auto simp: main_safe_def only_socket_def)
next
  case (create p r)
  from create_frame [OF create(3)] create(1,2) assms(1) show ?thesis
    by (cases r) (auto simp: main_safe_def handler_inv_def is_connected_def only_socket_def dest: ws_idle_inv)
next
  case (connect r)
  with assms(1) obtain c where "m_websocket h = Some c" "ws_idle c" by (auto simp: main_safe_def)
  from connect_frame [OF this connect(3)] connect(1,2) show ?thesis by (cases r) (auto simp: main_safe_def)
qed (use assms(2) in simp_all)

lemma main_step_safe:
  assumes "main_safe h pc" and "main_step net get_params (h, pc) (h', pc')"
  shows "main_safe h' pc'"
proof -
  from assms(1) have inv: "handler_inv h" and conn: "receiving pc \<Longrightarrow> is_connected h"
    by (simp_all add: main_safe_def)
  show ?thesis
  proof (cases "reconnecting pc")
    case True
    with reconnect_step [OF assms(1) _ assms(2)] show ?thesis by blast
  next
    case False
    from assms(2) show ?thesis
    proof (cases rule: main_step.cases)
      case (reset r)
      from reset_websocket_frame [OF inv reset(3)] reset inv show ?thesis
        by (cases r) (auto simp: main_safe_def handler_inv_def)
    next
      case (leave r)
      from notify_frame [OF leave(3)] notify_handler_inv [OF leave(3)] leave inv show ?thesis
        by (cases r) (auto simp: main_safe_def)
    next
      case receive
      with conn have "is_connected h" by simp
      with inv obtain c k where "m_websocket h = Some c" "wc_websocket c = Some k" by (rule connected_socket)
      with receive inv \<open>is_connected h\<close> show ?thesis by (simp add: main_safe_def enter_receive_def)
    next
      case (frame i buf r)
      with conn have "is_connected h" by simp
      from frame_round [OF inv this frame(3)] frame \<open>is_connected h\<close> show ?thesis
        by (cases r) (auto simp: main_safe_def is_connected_def after_round_Ok)
    next
      case (deliver m r)
      from on_user_frame [OF deliver(3)] have "handler_inv h'" "\<not> is_abort r"
        using inv by (metis handler_inv_def ws_handler.select_convs(1) ws_handler.surjective ws_handler.update_convs(8), simp)
      with deliver show ?thesis by (cases r) (auto simp: main_safe_def)
    next
      case (lost r)
      from notify_frame [OF lost(3)] notify_handler_inv [OF lost(3)] lost inv show ?thesis
        by (cases r) (auto simp: main_safe_def)
    next
      case (found r)
      from notify_frame [OF found(3)] notify_handler_inv [OF found(3)] found inv show ?thesis
        by (cases r) (auto simp: main_safe_def)
    qed (use inv False in \<open>auto simp: main_safe_def handler_inv_def\<close>)
  qed
qed

lemma main_safe_invariant: "main_invariant net get_params main_safe"
  by (rule main_invariantI, erule (1) main_step_safe) (simp add: main_safe_def handler_inv_def is_connected_def)

lemma reaches_safe:
  assumes "reaches net get_params peer (start_threads n h) t" and "handler_inv h"
  shows "main_safe (handler t) (main t)"
  by (rule reaches_main_invariant [OF assms(1) main_safe_invariant])
     (simp add: main_safe_def start_threads_def assms(2))

text \<open>The callbacks stay registered.\<close>

definition same_callbacks :: "('e, 'n, 'k, 'w) ws_handler \<Rightarrow> ('e, 'n, 'k, 'w) ws_handler \<Rightarrow> bool" where
  "same_callbacks s t \<longleftrightarrow> m_on_message_received t = m_on_message_received s \<and>
     m_on_connected t = m_on_connected s \<and> m_on_disconnected t = m_on_disconnected s"

lemma same_callbacks_if:
  "only_socket s t \<Longrightarrow> same_callbacks s t"
  "notify_connection_state_changed b s = (r, t) \<Longrightarrow> same_callbacks s t"
  "same_callbacks s s" "same_callbacks s (s\<lparr>m_stop := c\<rparr>)" "same_callbacks s (s\<lparr>outside := e\<rparr>)"
  by (auto simp: same_callbacks_def only_socket_def dest: notify_frame)

lemma same_callbacks_user: "t = s\<lparr>user := w\<rparr> \<Longrightarrow> same_callbacks s t"
  by (simp add: same_callbacks_def)

lemma main_step_callbacks:
  assumes "main_safe h pc" and "main_step net get_params (h, pc) (h', pc')"
  shows "same_callbacks h h'"
proof -
  from assms(1) have inv: "handler_inv h" and conn: "receiving pc \<Longrightarrow> is_connected h"
    by (simp_all add: main_safe_def)
  from assms(2) show ?thesis
  proof (cases rule: main_step.cases)
    case (reset r)
    from reset_websocket_frame [OF inv reset(3)] show ?thesis by (simp add: same_callbacks_if(1))
  next
    case (frame i buf r)
    with conn have "is_connected h" by simp
    from frame_round [OF inv this frame(3)] show ?thesis by (simp add: same_callbacks_if(1))
  next
    case (deliver m r)
    from on_user_frame [OF deliver(3)] show ?thesis by (blast intro: same_callbacks_user)
  qed (use reconnect_step [OF assms(1) _ assms(2)] in \<open>auto intro: same_callbacks_if\<close>)
qed

lemma reaches_callbacks:
  assumes "reaches net get_params peer (start_threads n h) t" and "handler_inv h"
  shows "same_callbacks h (handler t)"
proof -
  have "main_invariant net get_params (\<lambda>g pc. main_safe g pc \<and> same_callbacks h g)"
  proof (rule main_invariantI)
    fix g pc g' pc'
    assume "main_safe g pc \<and> same_callbacks h g" and "main_step net get_params (g, pc) (g', pc')"
    then show "main_safe g' pc' \<and> same_callbacks h g'"
      using main_step_safe main_step_callbacks [of g pc net get_params g' pc'] by (auto simp: same_callbacks_def)
  qed (simp add: main_safe_def same_callbacks_def handler_inv_def is_connected_def)
  from reaches_main_invariant [OF assms(1) this] assms(2) show ?thesis
    by (simp add: start_threads_def main_safe_def same_callbacks_if)
qed

subsection \<open>The callbacks see sessions, whatever the other threads do\<close>

text \<open>The tie between the connection, the flag and the control point of the main thread.\<close>

fun tied :: "main_pc \<Rightarrow> bool \<Rightarrow> bool \<Rightarrow> bool" where
  "tied M_receive connected flag \<longleftrightarrow> connected \<and> flag"
| "tied (M_frames i b) connected flag \<longleftrightarrow> connected \<and> flag"
| "tied (M_deliver m) connected flag \<longleftrightarrow> connected \<and> flag"
| "tied M_leave connected flag \<longleftrightarrow> \<not> connected"
| "tied M_lost connected flag \<longleftrightarrow> \<not> connected"
| "tied M_reconnect connected flag \<longleftrightarrow> \<not> connected \<and> \<not> flag"
| "tied M_lookup connected flag \<longleftrightarrow> \<not> connected \<and> \<not> flag"
| "tied (M_create p) connected flag \<longleftrightarrow> \<not> connected \<and> \<not> flag"
| "tied M_connect connected flag \<longleftrightarrow> \<not> connected \<and> \<not> flag"
| "tied M_found connected flag \<longleftrightarrow> \<not> flag"
| "tied (M_ended b) connected flag \<longleftrightarrow> True"
| "tied _ connected flag \<longleftrightarrow> (connected \<longrightarrow> flag)"

definition main_in_session ::
  "('w \<Rightarrow> bool) \<Rightarrow> ('w \<Rightarrow> ws_event list) \<Rightarrow> ('e, 'n, 'k, 'w) ws_handler \<Rightarrow> main_pc \<Rightarrow> bool" where
  "main_in_session I tr h pc \<longleftrightarrow> tracked I tr h \<and> tied pc (is_connected h) (m_is_state_connected h)"

lemma is_connected_cong: "m_websocket t = m_websocket s \<Longrightarrow> is_connected t = is_connected s"
  by (simp add: is_connected_def)

text \<open>Delivering a message adds \<open>Received\<close> events, which the protocol allows while the user knows of the connection.\<close>

lemma deliver_tracked:
  assumes "tracked I tr h" and "m_is_state_connected h"
    and "on_user (map_option (\<lambda>f. f m) (m_on_message_received h)) h = (r, h')"
  shows "tracked I tr h' \<and> h' = h\<lparr>user := user h'\<rparr> \<and> \<not> is_abort r"
proof -
  from assms(1) obtain f where f: "m_on_message_received h = Some f" and I: "I (user h)"
    and marks: "\<forall>m w. I w \<longrightarrow> I (snd (f m w)) \<and> (\<exists>es. tr (snd (f m w)) = tr w @ es \<and> list_all is_received es)"
    by (auto simp: tracked_def observed_def marks_def)
  obtain x w where fw: "f m (user h) = (x, w)" by (metis prod.collapse)
  from marks I obtain es where es: "tr w = tr (user h) @ es" "list_all is_received es" "I w"
    by (metis fw snd_conv)
  from on_user_frame [OF assms(3)] have h': "h' = h\<lparr>user := user h'\<rparr>" "\<not> is_abort r" by simp_all
  have "user h' = w" using assms(3) f fw by (auto simp: on_user_apply split: sum.splits)
  moreover from es(2) have "session True es = Some True" by (rule session_received)
  ultimately have "tracked I tr (h\<lparr>user := user h'\<rparr>)"
    using assms(1,2) es by (auto simp: tracked_def observed_def handler_inv_def session_append)
  with h' show ?thesis by simp
qed

text \<open>Reporting the loss, and a round of the receive loop.\<close>

lemma notify_loss_tracked:
  assumes "tracked I tr h" and "\<not> is_connected h" and "notify_connection_state_changed False h = (r, h')"
  shows "r = Ok () \<and> tracked I tr h' \<and> \<not> m_is_state_connected h' \<and> \<not> is_connected h'"
proof -
  from notify_tracked [OF assms(1), of False] obtain t where
    "notify_connection_state_changed False h = (Ok (), t)" "tracked I tr t" "\<not> m_is_state_connected t"
    "m_websocket t = m_websocket h" by blast
  with assms(2,3) is_connected_cong [of t h] show ?thesis by simp
qed

lemma frame_in_session:
  assumes "tracked I tr h" and "is_connected h" and "m_is_state_connected h"
    and "on_socket (receive_round net i buf) h = (r, h')"
  shows "main_in_session I tr h' (after_round i r)"
proof -
  from assms(1) have inv: "handler_inv h" by (simp add: tracked_def)
  from frame_round [OF inv assms(2,4)] have f: "only_socket h h'" "handler_inv h'" "\<not> is_abort r"
    "is_ok r \<longrightarrow> m_websocket h' = m_websocket h" by simp_all
  from f(1) assms(3) have "m_is_state_connected h'" by (simp add: only_socket_def)
  moreover from tracked_only_socket [OF assms(1) f(1,2)] have "tracked I tr h'" .
  ultimately show ?thesis
    using f(3,4) assms(2) is_connected_cong [of h' h]
    by (cases r) (auto simp: main_in_session_def after_round_Ok)
qed

lemma deliver_in_session:
  assumes "tracked I tr h" and "is_connected h" and "m_is_state_connected h"
    and "on_user (map_option (\<lambda>f. f m) (m_on_message_received h)) h = (r, h')"
  shows "main_in_session I tr h' (main_swallows M_check r)"
proof -
  from deliver_tracked [OF assms(1,3,4)] have d: "tracked I tr h'" "h' = h\<lparr>user := user h'\<rparr>" "\<not> is_abort r"
    by simp_all
  from d(2) have "m_is_state_connected h' = m_is_state_connected h"
    by (metis ws_handler.select_convs(2) ws_handler.surjective ws_handler.update_convs(8))
  with d assms(3) show ?thesis by (cases r) (auto simp: main_in_session_def)
qed

lemma main_step_in_session:
  assumes "main_in_session I tr h pc" and "main_safe h pc" and "main_step net get_params (h, pc) (h', pc')"
  shows "main_in_session I tr h' pc'"
proof -
  from assms(1) have tr: "tracked I tr h" and tied: "tied pc (is_connected h) (m_is_state_connected h)"
    by (simp_all add: main_in_session_def)
  from tr have inv: "handler_inv h" by (simp add: tracked_def)
  show ?thesis
  proof (cases "reconnecting pc")
    case True
    with reconnect_step [OF assms(2) _ assms(3)] tracked_only_socket [OF tr] tied show ?thesis
      by (cases pc; cases pc') (auto simp: main_in_session_def main_safe_def only_socket_def)
  next
    case False
    from assms(3) show ?thesis
    proof (cases rule: main_step.cases)
      case (reset r)
      with tr tied have "in_session I tr h" by (simp add: in_session_tracked)
      from reset_in_session [OF this, of net] reset show ?thesis by (cases r) (auto simp: main_in_session_def)
    next
      case (leave r)
      with notify_loss_tracked [OF tr _ leave(3)] tied show ?thesis by (auto simp: main_in_session_def)
    next
      case receive
      with tied have "is_connected h" by simp
      with inv obtain c k where "m_websocket h = Some c" "wc_websocket c = Some k" by (rule connected_socket)
      with receive tr tied show ?thesis by (simp add: main_in_session_def enter_receive_def)
    next
      case (frame i buf r)
      with frame_in_session [OF tr _ _ frame(3)] tied show ?thesis by simp
    next
      case (deliver m r)
      with deliver_in_session [OF tr _ _ deliver(3)] tied show ?thesis by simp
    next
      case (lost r)
      with notify_loss_tracked [OF tr _ lost(3)] tied show ?thesis by (auto simp: main_in_session_def)
    next
      case (found r)
      from notify_tracked [OF tr, of True] obtain t where
        "notify_connection_state_changed True h = (Ok (), t)" "tracked I tr t" "m_is_state_connected t" by blast
      with found show ?thesis by (auto simp: main_in_session_def)
    qed (use tr tied False in \<open>auto simp: main_in_session_def tracked_def handler_inv_def observed_def
          is_connected_def\<close>)
  qed
qed

definition safe_in_session ::
  "('w \<Rightarrow> bool) \<Rightarrow> ('w \<Rightarrow> ws_event list) \<Rightarrow> ('e, 'n, 'k, 'w) ws_handler \<Rightarrow> main_pc \<Rightarrow> bool" where
  "safe_in_session I tr h pc \<longleftrightarrow> main_safe h pc \<and> main_in_session I tr h pc"

lemma safe_in_session_invariant: "main_invariant net get_params (safe_in_session I tr)"
proof (rule main_invariantI)
  show "safe_in_session I tr h' pc'"
    if "safe_in_session I tr h pc" and "main_step net get_params (h, pc) (h', pc')" for h pc h' pc'
    using that main_step_safe main_step_in_session unfolding safe_in_session_def by blast
qed (simp add: safe_in_session_def main_safe_def main_in_session_def tracked_def handler_inv_def observed_def
    is_connected_def)

lemma start_safe_in_session:
  assumes "marks I tr h f g" and "I w" and "tr w = []"
  shows "safe_in_session I tr (with_callbacks (Some h) (Some f) (Some g) (lcu_websocket_handler e w)) M_start"
  using new_in_session [OF assms, of e]
  by (simp add: safe_in_session_def main_safe_def main_in_session_def in_session_tracked tracked_def)

lemma reaches_in_session:
  assumes "reaches net get_params peer
      (start_threads n (with_callbacks (Some h) (Some f) (Some g) (lcu_websocket_handler e w))) t"
    and "marks I tr h f g" and "I w" and "tr w = []"
  shows "main_in_session I tr (handler t) (main t)"
proof -
  have "safe_in_session I tr (handler t) (main t)"
    by (rule reaches_main_invariant [OF assms(1) safe_in_session_invariant])
       (simp add: start_threads_def start_safe_in_session [OF assms(2-4)])
  then show ?thesis by (simp add: safe_in_session_def)
qed

subsection \<open>Runs\<close>

lemma main_moves:
  assumes "reaches net get_params peer s \<lparr>handler = h, main = pc, clients = cs\<rparr>"
    and "main_step net get_params (h, pc) (h', pc')" and "list_all client_alive cs"
  shows "reaches net get_params peer s \<lparr>handler = h', main = pc', clients = left_behind h pc cs\<rparr>"
  using further [OF assms(1) main_turn [of net get_params _ h' pc' peer]] assms(2,3) by simp

lemma client_moves:
  assumes "reaches net get_params peer s \<lparr>handler = h, main = pc, clients = cs\<rparr>"
    and "client_step net (\<not> locked pc) (h, cs ! i) (h', c)" and "main_alive pc" and "list_all client_alive cs" and "i < length cs"
  shows "reaches net get_params peer s \<lparr>handler = h', main = pc, clients = cs[i := c]\<rparr>"
  using further [OF assms(1) client_turn [of i _ net h' c get_params peer]] assms(2-5) by simp

lemma clients_alive_update:
  "list_all client_alive cs \<Longrightarrow> client_alive c \<Longrightarrow> list_all client_alive (cs[i := c])"
  using set_update_subset_insert [of cs i c] by (auto simp: list_all_iff)

lemma dangle_simps [simp]: "client_alive (dangle c) = client_alive c" "c \<noteq> C_call \<Longrightarrow> dangle c = c"
  by (cases c; simp)+

lemma length_left_behind [simp]: "length (left_behind h pc cs) = length cs"
  by (simp add: left_behind_def)

lemma left_behind_alive [simp]: "list_all client_alive (left_behind h pc cs) = list_all client_alive cs"
  by (simp add: left_behind_def list_all_iff)

lemma left_behind_nth:
  "i < length cs \<Longrightarrow> left_behind h pc cs ! i = (if destroys h pc then dangle (cs ! i) else cs ! i)"
  by (simp add: left_behind_def)

text \<open>No call of \<open>stop\<close> is inside the client.\<close>

lemma left_behind_id: "C_call \<notin> set cs \<Longrightarrow> left_behind h pc cs = cs"
  by (auto simp: left_behind_def intro!: map_idI dangle_simps)

text \<open>The main thread alone: one step, as a function.\<close>

fun main_next ::
  "('e, 'n, 'k) poco_ws \<Rightarrow> ('e, lcu_parameters) ext \<Rightarrow>
     ('e, 'n, 'k, 'w) ws_handler \<times> main_pc \<Rightarrow> ('e, 'n, 'k, 'w) ws_handler \<times> main_pc" where
  "main_next net get_params (h, M_start) = (h\<lparr>m_stop := False\<rparr>, M_check)"
| "main_next net get_params (h, M_check) = (h, if m_stop h then M_reset else M_test)"
| "main_next net get_params (h, M_reset) = (case reset_websocket net h of (r, h') \<Rightarrow> (h', main_goes M_leave r))"
| "main_next net get_params (h, M_leave) =
     (case notify_connection_state_changed False h of (r, h') \<Rightarrow> (h', main_goes M_done r))"
| "main_next net get_params (h, M_test) = (h, if is_connected h then M_receive else M_lost)"
| "main_next net get_params (h, M_receive) = (h, enter_receive h)"
| "main_next net get_params (h, M_frames i buf) =
     (case on_socket (receive_round net i buf) h of (r, h') \<Rightarrow> (h', after_round i r))"
| "main_next net get_params (h, M_deliver msg) =
     (case on_user (map_option (\<lambda>f. f msg) (m_on_message_received h)) h of (r, h') \<Rightarrow> (h', main_swallows M_check r))"
| "main_next net get_params (h, M_lost) =
     (case notify_connection_state_changed False h of (r, h') \<Rightarrow> (h', main_goes M_reconnect r))"
| "main_next net get_params (h, M_reconnect) =
     (case drop_dead_client net h of
        (r, h') \<Rightarrow> (h', main_catches (if m_websocket h' = None then M_lookup else M_found) r))"
| "main_next net get_params (h, M_lookup) =
     (case on_outside (lift_ext get_params) h of (r, h') \<Rightarrow> (h', after_lookup r))"
| "main_next net get_params (h, M_create p) =
     (case create_client net p h of (r, h') \<Rightarrow> (h', main_catches M_connect r))"
| "main_next net get_params (h, M_connect) =
     (case on_socket (ws_start net) h of (r, h') \<Rightarrow> (h', main_catches M_found r))"
| "main_next net get_params (h, M_found) =
     (case notify_connection_state_changed True h of (r, h') \<Rightarrow> (h', main_catches M_check r))"
| "main_next net get_params (h, M_sleep) =
     (case sleep_for net event_loop_delay h of (r, h') \<Rightarrow> (h', main_goes M_check r))"
| "main_next net get_params (h, M_done) = (h, M_start)"
| "main_next net get_params (h, M_ended b) = (h, M_ended b)"

fun waits :: "('e, 'n, 'k) poco_ws \<Rightarrow> ('e, 'n, 'k, 'w) ws_handler \<times> main_pc \<Rightarrow> bool" where
  "waits net (h, M_frames i buf) = frame_waits net i h"
| "waits net (h, _) = False"

lemma sleep_step:
  "main_step net get_params (h, M_sleep) (h\<lparr>outside := ws_sleep_for net event_loop_delay (outside h)\<rparr>, M_check)"
  using main_step.sleep [OF sleep_for_apply, of net get_params h] by simp

lemma main_step_next:
  assumes "main_alive pc" and "\<not> waits net (h, pc)"
  shows "main_step net get_params (h, pc) (main_next net get_params (h, pc))"
  using assms
  by (cases pc) (simp_all add: main_step.intros sleep_step split: prod.split split del: if_split)

lemma reaches_next:
  assumes "reaches net get_params peer s \<lparr>handler = h, main = pc, clients = cs\<rparr>" and "list_all client_alive cs"
    and "main_next net get_params (h, pc) = (h', pc')" and "\<not> waits net (h, pc)"
  shows "reaches net get_params peer s \<lparr>handler = h', main = pc', clients = left_behind h pc cs\<rparr>"
proof (cases "\<not> main_alive pc")
  case True
  with assms show ?thesis by (cases pc) (auto simp: left_behind_def destroys_def)
next
  case False
  with assms main_step_next [of pc net h get_params] show ?thesis by (auto intro: main_moves)
qed

text \<open>Several of its steps, none of which waits.\<close>

inductive own_steps ::
  "('e, 'n, 'k) poco_ws \<Rightarrow> ('e, lcu_parameters) ext \<Rightarrow>
     ('e, 'n, 'k, 'w) ws_handler \<times> main_pc \<Rightarrow> ('e, 'n, 'k, 'w) ws_handler \<times> main_pc \<Rightarrow> bool"
  for net get_params s where
  own_none: "own_steps net get_params s s"
| own_more: "own_steps net get_params s t \<Longrightarrow> \<not> waits net t \<Longrightarrow> main_next net get_params t = u \<Longrightarrow>
    own_steps net get_params s u"

lemma own_steps_trans:
  "own_steps net get_params t u \<Longrightarrow> own_steps net get_params s t \<Longrightarrow> own_steps net get_params s u"
  by (induction rule: own_steps.induct) (auto intro: own_steps.intros)

lemma own_steps_funpow: "own_steps net get_params s t \<Longrightarrow> \<exists>n. (main_next net get_params ^^ n) s = t"
proof (induction rule: own_steps.induct)
  case own_none
  show ?case by (rule exI [of _ 0]) simp
next
  case (own_more t u)
  then obtain n where "(main_next net get_params ^^ n) s = t" by blast
  with own_more have "(main_next net get_params ^^ Suc n) s = u" by simp
  then show ?case by blast
qed

lemma reaches_own:
  assumes "own_steps net get_params (h, pc) t"
    and "reaches net get_params peer s \<lparr>handler = h, main = pc, clients = cs\<rparr>" and "list_all client_alive cs"
    and "C_call \<notin> set cs"
  shows "reaches net get_params peer s \<lparr>handler = fst t, main = snd t, clients = cs\<rparr>"
  using assms(1)
proof induction
  case own_none
  with assms(2) show ?case by simp
next
  case (own_more t u)
  from reaches_next [OF own_more.IH assms(3), of "fst u" "snd u"] own_more(2,3) show ?case
    by (simp add: left_behind_id [OF assms(4)])
qed

text \<open>\<open>reconnect\<close> is such steps.\<close>

lemma reconnect_steps:
  assumes "handler_inv h" and "\<not> is_connected h" and "reconnect net get_params h = (r, t)"
  shows "own_steps net get_params (h, M_reconnect) (t, main_catches M_found r)"
proof -
  let ?s = "(h, M_reconnect)" and ?h = "h\<lparr>m_websocket := None\<rparr>"
  note next1 = own_more [of net get_params ?s]
  note body = assms(3) [unfolded reconnect_disconnected [OF assms(1,2)]]
  from next1 [OF own_none, of "(?h, M_lookup)"] have
    l: "own_steps net get_params ?s (?h, M_lookup)" by (simp add: drop_dead_disconnected [OF assms(1,2)])
  obtain q e where gp: "get_params (outside h) = (q, e)" by (metis prod.collapse)
  show ?thesis
  proof (cases q)
    case (Inl x)
    with next1 [OF l, of "(?h\<lparr>outside := e\<rparr>, M_sleep)"] gp body show ?thesis
      by (auto simp: on_outside_def lift_ext_def)
  next
    case (Inr p)
    from next1 [OF l, of "(?h\<lparr>outside := e\<rparr>, M_create p)"] gp Inr have
      c: "own_steps net get_params ?s (?h\<lparr>outside := e\<rparr>, M_create p)" by (simp add: on_outside_def lift_ext_def)
    obtain q' e' where se: "ws_session net ''127.0.0.1'' (app_port p) e = (q', e')" by (metis prod.collapse)
    show ?thesis
    proof (cases q')
      case x: (Inl x)
      with next1 [OF c, of "(?h\<lparr>outside := e'\<rparr>, M_sleep)"] gp Inr se body show ?thesis
        by (auto simp: create_client_eq)
    next
      case n: (Inr n)
      let ?g = "h\<lparr>m_websocket := Some (lcu_client p n), outside := e'\<rparr>"
      from next1 [OF c, of "(?g, M_connect)"] se n have
        "own_steps net get_params ?s (?g, M_connect)" by (simp add: create_client_eq)
      from next1 [OF this] gp Inr se n body show ?thesis by simp
    qed
  qed
qed

text \<open>Several of its steps, when POCO never makes it wait and no call of \<open>stop\<close> is inside the client.\<close>

definition never_waits :: "('e, 'n, 'k) poco_ws \<Rightarrow> bool" where
  "never_waits net \<longleftrightarrow> (\<forall>k e. ws_ready net k e)"

lemma never_waitsD: "never_waits net \<Longrightarrow> \<not> waits net (h, pc)"
  by (cases pc) (auto simp: never_waits_def frame_waits_def split: option.split)

lemma reaches_nexts:
  assumes "reaches net get_params peer s \<lparr>handler = h, main = pc, clients = cs\<rparr>" and "list_all client_alive cs"
    and "(main_next net get_params ^^ n) (h, pc) = (h', pc')" and "never_waits net" and "C_call \<notin> set cs"
  shows "reaches net get_params peer s \<lparr>handler = h', main = pc', clients = cs\<rparr>"
  using assms
proof (induction n arbitrary: h' pc')
  case (Suc n)
  obtain h1 pc1 where "(main_next net get_params ^^ n) (h, pc) = (h1, pc1)" by (metis prod.collapse)
  with Suc reaches_next [of net get_params peer s h1 pc1 cs h' pc'] never_waitsD [OF Suc.prems(4), of h1 pc1]
    left_behind_id [OF Suc.prems(5), of h1 pc1]
  show ?case by simp
qed simp

subsection \<open>The steps of a call of \<open>receive_message\<close>\<close>

lemma frames_steps:
  assumes "m_websocket h = Some c" and "wc_websocket c \<noteq> None"
    and "receive_from net i buf (c, outside h) = (q, (c', e'))"
  shows "\<exists>n. (main_next net get_params ^^ n) (h, M_frames i buf) =
     (h\<lparr>m_websocket := Some c', outside := e'\<rparr>,
      case q of Ok m \<Rightarrow> M_deliver m | Throw x \<Rightarrow> M_check | Abort b \<Rightarrow> M_ended b)"
  using assms
proof (induction "256 - unat i" arbitrary: i buf h c rule: less_induct)
  case less
  obtain r c1 e1 where rr: "receive_round net i buf (c, outside h) = (r, (c1, e1))" by (metis prod.collapse)
  note fr = receive_round_frame [OF less.prems(2) rr]
  let ?h = "h\<lparr>m_websocket := Some c1, outside := e1\<rparr>"
  have os: "on_socket (receive_round net i buf) h = (r, ?h)"
    using on_socket_Some [of h c "receive_round net i buf", OF less.prems(1) rr] .
  then have one: "main_next net get_params (h, M_frames i buf) = (?h, after_round i r)" by simp
  note rest = receive_from_round [OF less.prems(2), of net i buf "outside h"]
  show ?case
  proof (cases r)
    case (Ok p)
    show ?thesis
    proof (cases "snd p")
      case True
      with less.prems(3) rest rr Ok have "q = Ok (fst p) \<and> c' = c1 \<and> e' = e1" by (cases p) simp
      with one Ok True show ?thesis by (intro exI [of _ 1]) (simp add: after_round_Ok)
    next
      case False
      from fr Ok have lt: "i < max_frames_per_message" by auto
      then have "256 - unat (i + 1) < 256 - unat i" using loop_counter by simp
      moreover have "receive_from net (i + 1) (fst p) (c1, outside ?h) = (q, (c', e'))"
        using less.prems(3) rest rr Ok False by (cases p) simp
      ultimately obtain n where "(main_next net get_params ^^ n) (?h, M_frames (i + 1) (fst p)) =
         (?h\<lparr>m_websocket := Some c', outside := e'\<rparr>,
          case q of Ok m \<Rightarrow> M_deliver m | Throw x \<Rightarrow> M_check | Abort b \<Rightarrow> M_ended b)"
        using less.hyps [of "i + 1" ?h c1 "fst p"] fr by auto
      then have "(main_next net get_params ^^ Suc n) (h, M_frames i buf) =
         (h\<lparr>m_websocket := Some c', outside := e'\<rparr>,
          case q of Ok m \<Rightarrow> M_deliver m | Throw x \<Rightarrow> M_check | Abort b \<Rightarrow> M_ended b)"
        using one Ok False by (simp only: funpow_Suc_right comp_apply after_round_Ok) simp
      then show ?thesis by blast
    qed
  next
    case (Throw x)
    with less.prems(3) rest rr have "q = Throw x \<and> c' = c1 \<and> e' = e1" by simp
    with one Throw show ?thesis by (intro exI [of _ 1]) simp
  next
    case (Abort b)
    with fr show ?thesis by simp
  qed
qed

lemma receive_steps:
  assumes "handler_inv h" and "is_connected h" and "receive_message net h = (r, t)"
  shows "\<exists>n. (main_next net get_params ^^ n) (h, M_receive) = (t, M_check)"
proof -
  from assms(1,2) obtain c k where c: "m_websocket h = Some c" "wc_websocket c = Some k" by (rule connected_socket)
  then have sock: "wc_websocket c \<noteq> None" by simp
  obtain q c' e' where rf: "receive_from net 0 [] (c, outside h) = (q, (c', e'))" by (metis prod.collapse)
  from frames_steps [OF c(1) sock rf, of get_params] obtain n where
    n: "(main_next net get_params ^^ n) (h, M_frames 0 []) = (h\<lparr>m_websocket := Some c', outside := e'\<rparr>,
      case q of Ok m \<Rightarrow> M_deliver m | Throw x \<Rightarrow> M_check | Abort b \<Rightarrow> M_ended b)" (is "_ = (?h, _)")
    by blast
  have one: "main_next net get_params (h, M_receive) = (h, M_frames 0 [])" using c by (simp add: enter_receive_def)
  have os: "on_socket (ws_receive_message net) h = (q, ?h)"
    using receive_from_start [OF sock, of net "outside h"] rf c(1) by (simp add: on_socket_def)
  have "m_websocket h \<noteq> None" using c by simp
  from receive_message_frame [OF assms(1) this assms(3)] have ok: "r = Ok ()" by simp
  show ?thesis
  proof (cases q)
    case (Ok m)
    obtain u h' where d: "on_user (map_option (\<lambda>f. f m) (m_on_message_received ?h)) ?h = (u, h')" by (metis prod.collapse)
    with os Ok assms(3) have "t = h' \<and> \<not> is_abort u"
      using on_user_frame [OF d] by (cases u) (auto simp: receive_message_def try_catch_def andthen_def)
    with n Ok d have "(main_next net get_params ^^ Suc n) (h, M_frames 0 []) = (t, M_check)" by (cases u) auto
    with one have "(main_next net get_params ^^ Suc (Suc n)) (h, M_receive) = (t, M_check)"
      by (simp only: funpow_Suc_right [of "Suc n"] comp_apply)
    then show ?thesis by blast
  next
    case (Throw x)
    with os assms(3) have "t = ?h" by (auto simp: receive_message_def try_catch_def andthen_def)
    with n Throw one have "(main_next net get_params ^^ Suc n) (h, M_receive) = (t, M_check)"
      by (simp only: funpow_Suc_right comp_apply) simp
    then show ?thesis by blast
  next
    case (Abort b)
    with os assms(3) ok show ?thesis by (simp add: receive_message_def try_catch_def andthen_def)
  qed
qed

text \<open>A round of the loop, and where its result puts the main thread.\<close>

fun round_ends :: "bool result \<Rightarrow> main_pc" where
  "round_ends (Ok broke) = (if broke then M_done else M_check)"
| "round_ends (Throw x) = M_ended (Terminate x)"
| "round_ends (Abort b) = M_ended b"

lemma stop_round_steps:
  assumes "handler_inv h" and "m_stop h" and "loop_body net get_params h = (r, t)"
  shows "\<exists>n. (main_next net get_params ^^ n) (h, M_check) = (t, round_ends r)"
proof -
  obtain r1 t1 where n1: "reset_websocket net h = (r1, t1)" by (cases "reset_websocket net h")
  obtain r2 t2 where n2: "notify_connection_state_changed False t1 = (r2, t2)"
    by (cases "notify_connection_state_changed False t1")
  have next2: "(main_next net get_params ^^ 2) (h, M_check) = (t1, main_goes M_leave r1)"
    using assms(2) n1 by (simp add: numeral_eq_Suc)
  show ?thesis
  proof (cases r1)
    case (Ok u)
    then have "(main_next net get_params ^^ 3) (h, M_check) = (t2, main_goes M_done r2)"
      using next2 n2 by (simp add: numeral_eq_Suc)
    moreover have "t = t2 \<and> round_ends r = main_goes M_done r2"
      using assms(2,3) n1 n2 Ok by (cases r2) (auto simp: loop_body_def andthen_def)
    ultimately show ?thesis by metis
  next
    case (Throw x)
    with reset_websocket_frame [OF assms(1) n1] show ?thesis by simp
  next
    case (Abort b)
    with next2 assms(2,3) n1 show ?thesis
      by (intro exI [of _ 2]) (auto simp: loop_body_def andthen_def)
  qed
qed

lemma message_round_steps:
  assumes "handler_inv h" and "\<not> m_stop h" and "is_connected h" and "loop_body net get_params h = (r, t)"
  shows "\<exists>n. (main_next net get_params ^^ n) (h, M_check) = (t, round_ends r)"
proof -
  from assms(3) have ne: "m_websocket h \<noteq> None" by (auto simp: is_connected_def split: option.splits)
  obtain r1 t1 where n1: "receive_message net h = (r1, t1)" by (cases "receive_message net h")
  from receive_steps [OF assms(1,3) n1, of get_params] obtain n where
    n: "(main_next net get_params ^^ n) (h, M_receive) = (t1, M_check)" by blast
  have "(main_next net get_params ^^ 2) (h, M_check) = (h, M_receive)" using assms(2,3) by (simp add: numeral_eq_Suc)
  with n have "(main_next net get_params ^^ (n + 2)) (h, M_check) = (t1, M_check)"
    by (simp only: funpow_add comp_apply)
  moreover have "t = t1 \<and> round_ends r = M_check"
    using assms(2-4) n1 receive_message_frame [OF assms(1) ne n1] by (auto simp: loop_body_def andthen_def)
  ultimately show ?thesis by metis
qed

lemma reconnect_round_steps:
  assumes "handler_inv h" and "\<not> m_stop h" and "\<not> is_connected h" and "loop_body net get_params h = (r, t)"
  shows "\<exists>n. (main_next net get_params ^^ n) (h, M_check) = (t, round_ends r)"
proof -
  let ?s = "(h, M_check)"
  note next1 = own_more [of net get_params ?s]
  obtain r1 t1 where n1: "notify_connection_state_changed False h = (r1, t1)"
    by (cases "notify_connection_state_changed False h")
  obtain r2 t2 where n2: "reconnect net get_params t1 = (r2, t2)" by (cases "reconnect net get_params t1")
  obtain r3 t3 where n3: "notify_connection_state_changed True t2 = (r3, t3)"
    by (cases "notify_connection_state_changed True t2")
  note body = assms(2-4) n1 n2 n3
  note defs = loop_body_def reconnect_and_notify_def andthen_def try_catch_def
  from next1 [OF own_none, of "(h, M_test)"] assms(2) have "own_steps net get_params ?s (h, M_test)" by simp
  from next1 [OF this, of "(h, M_lost)"] assms(3) have "own_steps net get_params ?s (h, M_lost)" by simp
  from next1 [OF this, of "(t1, main_goes M_reconnect r1)"] n1 have
    lost: "own_steps net get_params ?s (t1, main_goes M_reconnect r1)" by simp
  have "own_steps net get_params ?s (t, round_ends r)"
  proof (cases r1)
    case (Ok u)
    from notify_handler_inv [OF n1] assms(1,3) have "handler_inv t1" "\<not> is_connected t1" by simp_all
    from reconnect_steps [OF this n2] lost Ok have
      tried: "own_steps net get_params ?s (t2, main_catches M_found r2)" by (auto intro: own_steps_trans)
    show ?thesis
    proof (cases r2)
      case found: (Ok v)
      with next1 [OF tried, of "(t3, main_catches M_check r3)"] n3 have
        told: "own_steps net get_params ?s (t3, main_catches M_check r3)" by simp
      with next1 [OF told] body Ok found show ?thesis by (cases r3) (auto simp: defs)
    next
      case (Throw x)
      with next1 [OF tried] body Ok show ?thesis by (auto simp: defs)
    qed (use tried body Ok in \<open>auto simp: defs\<close>)
  qed (use lost body in \<open>auto simp: defs\<close>)
  then show ?thesis by (rule own_steps_funpow)
qed

lemma loop_body_steps:
  assumes "handler_inv h" and "loop_body net get_params h = (r, t)"
  shows "\<exists>n. (main_next net get_params ^^ n) (h, M_check) = (t, round_ends r)"
  using stop_round_steps [OF assms(1) _ assms(2)] message_round_steps [OF assms(1) _ _ assms(2)]
    reconnect_round_steps [OF assms(1) _ _ assms(2)]
  by blast

text \<open>A run up to \<open>reconnect\<close>, up to the notification of a new connection, and to the first test of \<open>m_stop\<close> in
  connected state.\<close>

lemma next_alone:
  assumes "reaches net get_params peer s \<lparr>handler = g, main = pc, clients = cs\<rparr>"
    and "main_next net get_params (g, pc) = (g', pc')" and "\<not> waits net (g, pc)"
    and "list_all client_alive cs" and "C_call \<notin> set cs"
  shows "reaches net get_params peer s \<lparr>handler = g', main = pc', clients = cs\<rparr>"
  using reaches_next [OF assms(1,4,2,3)] left_behind_id [OF assms(5), of g pc] by simp

lemma idle_clients: "list_all client_alive (replicate n C_idle)" "C_call \<notin> set (replicate n C_idle)"
  by (simp_all add: list_all_iff)

lemma reconnecting_run:
  assumes "\<not> is_connected h" and "\<not> m_is_state_connected h"
  shows "reaches net get_params peer (start_threads n h)
     \<lparr>handler = h\<lparr>m_stop := False\<rparr>, main = M_reconnect, clients = replicate n C_idle\<rparr>"
proof -
  let ?s = "start_threads n h" and ?h = "h\<lparr>m_stop := False\<rparr>" and ?cs = "replicate n C_idle"
  note next1 = next_alone [OF _ _ _ idle_clients]
  have disc: "\<not> is_connected ?h" using assms(1) by (simp add: is_connected_def)
  have "reaches net get_params peer ?s \<lparr>handler = h, main = M_start, clients = ?cs\<rparr>"
    unfolding start_threads_def by (rule here)
  then have "reaches net get_params peer ?s \<lparr>handler = ?h, main = M_check, clients = ?cs\<rparr>" by (rule next1) simp_all
  then have "reaches net get_params peer ?s \<lparr>handler = ?h, main = M_test, clients = ?cs\<rparr>" by (rule next1) simp_all
  then have "reaches net get_params peer ?s \<lparr>handler = ?h, main = M_lost, clients = ?cs\<rparr>"
    by (rule next1) (simp_all add: disc)
  then show ?thesis by (rule next1) (simp_all add: notify_quiet assms(2))
qed

lemma finding_run:
  assumes "handler_inv h" and "\<not> is_connected h" and "\<not> m_is_state_connected h"
    and "reconnect net get_params (h\<lparr>m_stop := False\<rparr>) = (Ok (), h1)"
  shows "reaches net get_params peer (start_threads n h) \<lparr>handler = h1, main = M_found, clients = replicate n C_idle\<rparr>"
proof -
  have "handler_inv (h\<lparr>m_stop := False\<rparr>)" "\<not> is_connected (h\<lparr>m_stop := False\<rparr>)"
    using assms(1,2) by (simp_all add: handler_inv_def is_connected_def)
  from reaches_own [OF reconnect_steps [OF this assms(4)] reconnecting_run [OF assms(2,3)] idle_clients]
  show ?thesis by simp
qed

lemma connecting_run:
  assumes "handler_inv h" and "\<not> is_connected h" and "\<not> m_is_state_connected h"
    and "reconnect net get_params (h\<lparr>m_stop := False\<rparr>) = (Ok (), h1)"
    and "notify_connection_state_changed True h1 = (Ok (), h2)"
  shows "reaches net get_params peer (start_threads n h) \<lparr>handler = h2, main = M_check, clients = replicate n C_idle\<rparr>"
  using reaches_next [OF finding_run [OF assms(1-4), where n = n and peer = peer], where h' = h2 and pc' = M_check] assms(5) left_behind_id [of "replicate n C_idle" h1]
  by (simp add: list_all_iff)

subsection \<open>The mutex\<close>

text \<open>A thread that can take the mutex can go on.\<close>

lemma client_has_step:
  assumes "client_alive pc"
  shows "\<exists>v. client_step net True (h, pc) v"
proof (cases pc)
  case (C_send m)
  obtain r h' where "on_socket (ws_send_message net m) h = (r, h')" by (metis prod.collapse)
  from send_locked [OF TrueI this] C_send show ?thesis by blast
next
  case C_call
  obtain r h' where "on_socket (ws_send_message net ''Exit'') h = (r, h')" by (metis prod.collapse)
  from call [OF this, of True] C_call show ?thesis by blast
next
  case (C_ended b)
  with assms show ?thesis by simp
qed (blast intro: client_step.intros)+

subsection \<open>A concrete run for the witnesses\<close>

text \<open>A League client that is there until its last message has been received.\<close>

definition there_while :: "(incoming list, lcu_parameters) ext" where
  "there_while = (\<lambda>e. (if e = [] then Inl (Rito Lcu_not_running_exception ''gone'')
     else Inr \<lparr>remoting_auth_token = ''tok'', app_port = 12345\<rparr>, e))"

definition fresh :: "(incoming list, unit, unit, ws_event list) ws_handler" where
  "fresh = with_callbacks (Some recorded_message) (Some (recorded Connected)) (Some (recorded Disconnected))
     (lcu_websocket_handler [Frame [] 0] [])"

definition met :: "(incoming list, unit, unit, ws_event list) ws_handler" where
  "met = fresh\<lparr>m_websocket := Some open_client, m_is_state_connected := True, user := [Connected]\<rparr>"

text \<open>A world that does not move on its own, and one in which frames arrive.\<close>

definition still :: "'e \<Rightarrow> 'e \<Rightarrow> bool" where
  "still e e' \<longleftrightarrow> False"

definition arrivals :: "incoming list \<Rightarrow> incoming list \<Rightarrow> bool" where
  "arrivals e e' \<longleftrightarrow> (\<exists>gs. e' = e @ gs)"

lemmas fresh_simps = fresh_def with_callbacks_def register_message_callback_def
  register_on_connected_callback_def register_on_disconnected_callback_def lcu_websocket_handler_def

lemma fresh_inv: "handler_inv fresh"
  by (simp add: fresh_simps handler_inv_def)

lemma met_facts:
  "handler_inv met" "is_connected met" "\<not> m_stop met" "disconnect_returns met"
  by (simp_all add: met_def fresh_simps handler_inv_def is_connected_def ws_inv_def ws_is_connected_def
      disconnect_returns_def recorded_def)

lemma scripted_never_waits: "never_waits scripted_ws"
  by (simp add: never_waits_def scripted_ws_def)

text \<open>The scripted League client accepts every connection.\<close>

lemma scripted_reconnect:
  assumes "m_websocket h = None"
    and "get_params (outside h) = (Inr \<lparr>remoting_auth_token = ''tok'', app_port = 12345\<rparr>, outside h)"
  shows "reconnect scripted_ws get_params h = (Ok (), h\<lparr>m_websocket := Some open_client\<rparr>)"
proof -
  have i: "handler_inv h" "\<not> is_connected h" using assms(1) by (simp_all add: handler_inv_def is_connected_def)
  show ?thesis
    unfolding reconnect_disconnected [OF i]
    by (simp add: assms scripted_ws_def on_socket_def ws_start_def lcu_client_def andthen_def try_catch_def
        on_env_def lift_ext_def set_websocket_def set_connected_def open_client_def)
qed

lemma scripted_connecting_run:
  assumes "m_websocket h = None" and "\<not> m_is_state_connected h"
    and "get_params (outside h) = (Inr \<lparr>remoting_auth_token = ''tok'', app_port = 12345\<rparr>, outside h)"
    and "notify_connection_state_changed True (h\<lparr>m_stop := False, m_websocket := Some open_client\<rparr>) = (Ok (), h')"
  shows "reaches scripted_ws get_params peer (start_threads n h)
     \<lparr>handler = h', main = M_check, clients = replicate n C_idle\<rparr>"
proof (rule connecting_run)
  show "handler_inv h" "\<not> is_connected h" using assms(1) by (simp_all add: handler_inv_def is_connected_def)
  show "reconnect scripted_ws get_params (h\<lparr>m_stop := False\<rparr>) =
      (Ok (), h\<lparr>m_stop := False, m_websocket := Some open_client\<rparr>)"
    using scripted_reconnect [of "h\<lparr>m_stop := False\<rparr>" get_params] assms by simp
qed (rule assms)+

lemma met_reached:
  "reaches scripted_ws there_while peer (start_threads n fresh)
     \<lparr>handler = met, main = M_check, clients = replicate n C_idle\<rparr>"
  by (rule scripted_connecting_run)
     (simp_all add: there_while_def notify_changed on_user_apply fresh_simps met_def recorded_def open_client_def)

subsection \<open>Properties\<close>

text \<open>C1. With any number of threads that call \<open>send_message\<close> and \<open>stop\<close> at any moment, and whatever happens
  outside, between any two frames of a message too, the callbacks still see sessions: in every reachable
  state of the threads the connected and disconnected events alternate and messages come only in between, and
  from the test of the connection to the message callback the handler is connected and the user knows.\<close>

theorem threads_session_protocol:
  assumes "marks I tr h f g" and "I w" and "tr w = []"
    and "reaches net get_params peer
           (start_threads n (with_callbacks (Some h) (Some f) (Some g) (lcu_websocket_handler e w))) t"
  shows "session False (tr (user (handler t))) = Some (m_is_state_connected (handler t)) \<and>
     (receiving (main t) \<or> (\<exists>m. main t = M_deliver m) \<longrightarrow>
        is_connected (handler t) \<and> m_is_state_connected (handler t))"
  using reaches_in_session [OF assms(4,1,2,3)]
  by (cases "main t") (auto simp: main_in_session_def tracked_def)

theorem threads_session_protocol_witness:
  "reaches scripted_ws there_while arrivals (start_threads 2 fresh)
     \<lparr>handler = met, main = M_check, clients = [C_idle, C_idle]\<rparr> \<and> session False (user met) = Some True"
  using threads_session_protocol [OF recorded_marks TrueI _ met_reached [of arrivals 2, unfolded fresh_def]]
    met_reached [of arrivals 2]
  by (simp add: met_def numeral_2_eq_2)

text \<open>C9. Whatever the other threads do and when, the thread in \<open>run\<close> never dereferences the null client and
  never uses a destroyed one: it ends the program only through \<open>std::terminate\<close>, for an exception that
  reaches \<open>noexcept\<close>.\<close>

theorem main_thread_safe:
  assumes "handler_inv h" and "reaches net get_params peer (start_threads n h) t"
  shows "main_alive (main t) \<or> (\<exists>x. main t = M_ended (Terminate x))"
  using reaches_safe [OF assms(2,1)] by (cases "main t") (auto simp: main_safe_def)

theorem main_thread_safe_witness:
  "\<exists>t. reaches scripted_ws there_while arrivals (start_threads 2 fresh) t \<and> is_connected (handler t) \<and>
     (main_alive (main t) \<or> (\<exists>x. main t = M_ended (Terminate x)))"
  using main_thread_safe [OF fresh_inv met_reached [of arrivals 2]] met_reached [of arrivals 2] met_facts(2)
  by fastforce

text \<open>C10. No thread waits for ever for \<open>m_socket_mutex\<close>: in every reachable state a calling thread can go on with
  its call, or the thread in \<open>run\<close> holds the mutex, in \<open>reconnect\<close>. Then that thread has a step, waits for no
  frame, runs no callback, and whatever its step does it is nearer to the end of the block, after at most three;
  none of them ends the program.\<close>

theorem mutex_is_released:
  assumes "handler_inv h" and "reaches net get_params peer (start_threads n h) t"
    and "client_alive (clients t ! i)" and "i < length (clients t)"
  shows "(\<exists>v. client_step net (\<not> locked (main t)) (handler t, clients t ! i) v) \<or>
     block_left (main t) \<in> {1..3} \<and> (\<exists>u. main_step net get_params (handler t, main t) u) \<and>
     (\<forall>h' pc'. main_step net get_params (handler t, main t) (h', pc') \<longrightarrow>
        main_alive pc' \<and> block_left pc' < block_left (main t))"
proof (cases "locked (main t)")
  case True
  note safe = reaches_safe [OF assms(2,1)]
  have "main_alive (main t)" "\<not> waits net (handler t, main t)" "block_left (main t) \<in> {1..3}"
    using True by (cases "main t"; simp)+
  moreover have "main_alive pc' \<and> block_left pc' < block_left (main t)"
    if "main_step net get_params (handler t, main t) (h', pc')" for h' pc'
  proof -
    have "reconnecting (main t)" using True by (cases "main t") simp_all
    with reconnect_step [OF safe _ that] show ?thesis by (cases pc') auto
  qed
  ultimately show ?thesis using main_step_next [of "main t" net "handler t" get_params] by blast
next
  case False
  then have "(\<not> locked (main t)) = True" by simp
  with client_has_step [OF assms(3), of net "handler t"] show ?thesis by metis
qed

theorem mutex_is_released_witness:
  "\<exists>t u. reaches scripted_ws there_while still (start_threads 1 fresh) t \<and> locked (main t) \<and>
     clients t = [C_stop] \<and> main_step scripted_ws there_while (handler t, main t) u"
proof -
  let ?h = "fresh\<lparr>m_stop := False\<rparr>" and ?s = "start_threads 1 fresh"
  let ?t = "\<lparr>handler = ?h\<lparr>m_stop := True\<rparr>, main = M_lookup, clients = [C_stop]\<rparr>"
  have f: "\<not> is_connected fresh" "\<not> m_is_state_connected fresh" by (simp_all add: fresh_simps is_connected_def)
  have none: "m_websocket ?h = None" by (simp add: fresh_simps)
  then have "drop_dead_client scripted_ws ?h = (Ok (), ?h)" by (simp add: drop_dead_client_def)
  note first = this none
  have "reaches scripted_ws there_while still ?s \<lparr>handler = ?h, main = M_lookup, clients = replicate 1 C_idle\<rparr>"
    by (rule next_alone [OF reconnecting_run [OF f] _ _ idle_clients])
       (simp_all add: first del: ws_handler.update_convs)
  then have "reaches scripted_ws there_while still ?s ?t"
    using client_moves [of scripted_ws there_while still ?s ?h M_lookup "[C_idle]" 0 "?h\<lparr>m_stop := True\<rparr>" C_stop]
      client_step.stop [of scripted_ws False ?h] by simp
  moreover from mutex_is_released [OF fresh_inv this, of 0] have "\<exists>u. main_step scripted_ws there_while (handler ?t, main ?t) u"
    by (auto elim: client_stepE)
  ultimately show ?thesis by (intro exI [of _ ?t]) auto
qed

text \<open>C11. The two models of the loop agree: undisturbed, and when POCO does not make it wait, the thread in
  \<open>run\<close> gets from the top of the loop to where \<open>loop_body\<close> ends, in the state it leaves, by its own steps,
  frame by frame: the top again, after the loop, or the end of the program for an exception that left the
  round.\<close>

theorem main_thread_refines_loop:
  assumes "handler_inv h" and "loop_body net get_params h = (r, t)" and "never_waits net"
    and "list_all client_alive cs" and "C_call \<notin> set cs"
    and "reaches net get_params peer s \<lparr>handler = h, main = M_check, clients = cs\<rparr>"
  shows "reaches net get_params peer s \<lparr>handler = t, main = round_ends r, clients = cs\<rparr>"
  using loop_body_steps [OF assms(1,2)] reaches_nexts [OF assms(6,4) _ assms(3,5)] by blast

theorem main_thread_refines_loop_witness:
  "\<exists>t. reaches scripted_ws there_while still (start_threads 1 fresh)
       \<lparr>handler = t, main = M_check, clients = [C_idle]\<rparr> \<and> m_is_state_connected t"
proof -
  obtain r t where l: "loop_body scripted_ws there_while met = (r, t)" by (metis prod.collapse)
  from message_exceptions_swallowed_frame [OF met_facts(1-3), of scripted_ws there_while] l
  have "r = Ok False" "m_is_state_connected t" by (auto simp: met_def)
  with main_thread_refines_loop [OF met_facts(1) l scripted_never_waits _ _ met_reached [of still 1]]
  show ?thesis by auto
qed

end
