(* ===== verification/Lcu_Wamp_Threads.thy ===== *)
theory Lcu_Wamp_Threads
  imports Lcu_Wamp Lcu_Websocket_Threads
begin

text \<open>
  The WAMP handler under threads: the thread in \<open>run\<close> of \<open>Lcu_Websocket_Threads\<close> with the callbacks that the
  constructor of \<open>Lcu_wamp_handler\<close> registers, beside threads that call \<open>call\<close>, \<open>subscribe\<close>,
  \<open>unsubscribe\<close> and \<open>stop\<close>. What these send is a text like any other, so their steps are the steps of
  \<open>send_message\<close>; what arrives goes through \<open>on_message\<close> to the user's five callbacks.
\<close>

subsection \<open>The registered callbacks\<close>

definition wamp_threads ::
  "nat \<Rightarrow> ('v, 'a) poco_json \<Rightarrow> 'e \<Rightarrow> 'w wamp_side \<Rightarrow> ('e, 'n, 'k, 'w wamp_side) threads" where
  "wamp_threads n js e side = start_threads n
     (with_wamp_callbacks (m_on_connected_callback side) (m_on_disconnected_callback side)
       (m_on_call_result_callback side) (m_on_call_error_callback side) (m_on_event_callback side)
       (lcu_wamp_handler js e (program side)))"

lemma wamp_threads_eq:
  "wamp_threads n js e side = start_threads n
     (with_callbacks (Some (\<lambda>m. lambda (on_message js m))) (Some (lambda on_connected))
       (Some (lambda on_disconnected)) (lcu_websocket_handler e side))"
  by (cases side) (simp add: wamp_threads_def new_wamp_handler)

lemma wamp_reaches_in_session:
  assumes "poco_errors js" and "wamp_marks tr side" and "tr (program side) = []"
    and "reaches net get_params peer (wamp_threads n js e side) t"
  shows "main_in_session (wamp_marks tr) (\<lambda>s. map shape (tr (program s))) (handler t) (main t)"
  by (rule reaches_in_session [OF assms(4) [unfolded wamp_threads_eq] wamp_lambdas_mark [OF assms(1)] assms(2)])
     (simp add: assms(3))

lemma wamp_reaches_on_message:
  assumes "reaches net get_params peer (wamp_threads n js e side) t"
  shows "m_on_message_received (handler t) = Some (\<lambda>m. lambda (on_message js m))"
proof -
  let ?h = "with_callbacks (Some (\<lambda>m. lambda (on_message js m))) (Some (lambda on_connected))
    (Some (lambda on_disconnected)) (lcu_websocket_handler e side)"
  have "handler_inv ?h" by (simp add: fresh_simps(2-6) handler_inv_def)
  from reaches_callbacks [OF assms [unfolded wamp_threads_eq] this] show ?thesis
    by (simp add: same_callbacks_def fresh_simps(2-6))
qed

text \<open>A delivery is one step.\<close>

lemma deliver_iff:
  "main_step net get_params (h, M_deliver m) v \<longleftrightarrow>
     (case on_user (map_option (\<lambda>f. f m) (m_on_message_received h)) h of (r, h') \<Rightarrow> v = (h', main_swallows M_check r))"
  by (cases v) (auto elim: main_stepE intro: main_step.deliver split: prod.splits)

subsection \<open>A run for the witnesses\<close>

definition event_handler :: "(incoming list, unit, unit, wamp_event list) wamp_handler" where
  "event_handler = with_callbacks (Some (\<lambda>m. lambda (on_message small_json m))) (Some (lambda on_connected))
     (Some (lambda on_disconnected)) (lcu_websocket_handler [Frame event_text 0x81] logging_side)"

definition listening :: "(incoming list, unit, unit, wamp_event list) wamp_handler" where
  "listening = event_handler\<lparr>m_websocket := Some open_client, m_is_state_connected := True,
     user := logging_side\<lparr>program := [Wamp_connected]\<rparr>\<rparr>"

lemmas event_simps = event_handler_def listening_def fresh_simps(2-6)

lemma event_arrives:
  "reaches scripted_ws found still (wamp_threads 1 small_json [Frame event_text 0x81] logging_side)
     \<lparr>handler = listening\<lparr>outside := []\<rparr>, main = M_deliver event_text, clients = [C_idle]\<rparr>"
proof -
  let ?s = "start_threads 1 event_handler"
  have eq: "wamp_threads 1 small_json [Frame event_text 0x81] logging_side = ?s"
    by (simp add: wamp_threads_eq event_handler_def)
  have next1: "reaches scripted_ws found still ?s \<lparr>handler = g', main = pc', clients = [C_idle]\<rparr>"
    if "reaches scripted_ws found still ?s \<lparr>handler = g, main = pc, clients = [C_idle]\<rparr>"
      and "main_next scripted_ws found (g, pc) = (g', pc')" for g pc g' pc'
    using reaches_next [OF that(1) _ that(2) never_waitsD [OF scripted_never_waits]] left_behind_id [of "[C_idle]" g pc]
    by simp
  have "reaches scripted_ws found still ?s \<lparr>handler = listening, main = M_check, clients = replicate 1 C_idle\<rparr>"
    by (rule scripted_connecting_run)
       (simp_all add: event_simps found_def notify_changed on_user_apply on_connected_def lambda_on_program
          logging_side_def)
  then have "reaches scripted_ws found still ?s \<lparr>handler = listening, main = M_check, clients = [C_idle]\<rparr>" by simp
  from next1 [OF this, of listening M_test]
  have "reaches scripted_ws found still ?s \<lparr>handler = listening, main = M_test, clients = [C_idle]\<rparr>"
    by (simp add: event_simps)
  from next1 [OF this, of listening M_receive]
  have "reaches scripted_ws found still ?s \<lparr>handler = listening, main = M_receive, clients = [C_idle]\<rparr>"
    by (simp add: event_simps is_connected_def open_client_def ws_is_connected_def)
  from next1 [OF this, of listening "M_frames 0 []"]
  have "reaches scripted_ws found still ?s \<lparr>handler = listening, main = M_frames 0 [], clients = [C_idle]\<rparr>"
    by (simp add: event_simps enter_receive_def open_client_def)
  from next1 [OF this, of "listening\<lparr>outside := []\<rparr>" "M_deliver event_text"] show ?thesis
    unfolding eq
    by (simp add: event_simps on_socket_def receive_round_def max_frames_per_message_def open_client_def
        scripted_ws_def max_frame_size_def andthen_def try_catch_def on_env_def lift_ext_def
        frame_flag_fin_def event_text_def)
qed

subsection \<open>Properties\<close>

text \<open>C4. The WAMP user sees sessions under threads: whatever other threads call, and whatever happens outside, in
  every reachable state the events on the user's five callbacks alternate between connected and disconnected,
  and results, errors and events come only in between.\<close>

theorem wamp_threads_session_protocol:
  assumes "poco_errors js" and "wamp_marks tr side" and "tr (program side) = []"
    and "reaches net get_params peer (wamp_threads n js e side) t"
  shows "session False (map shape (tr (program (user (handler t))))) = Some (m_is_state_connected (handler t))"
  using wamp_reaches_in_session [OF assms] by (simp add: main_in_session_def tracked_def)

theorem wamp_threads_session_protocol_witness:
  "\<exists>t. reaches scripted_ws found still (wamp_threads 1 small_json [Frame event_text 0x81] logging_side) t \<and>
     main t = M_deliver event_text \<and> session False (map shape (program (user (handler t)))) = Some True"
  using wamp_threads_session_protocol [OF small_json_errors logging_side_marks _ event_arrives] event_arrives
  by (intro exI conjI) (assumption, simp_all add: logging_side_def event_simps)

text \<open>C5. A message that has arrived is dispatched in one step, to the one callback of the reference reading of its
  text, or to none; whatever the callback throws, the thread in \<open>run\<close> goes on.\<close>

theorem wamp_threads_dispatch:
  assumes "poco_errors js" and "wamp_marks tr side" and "tr (program side) = []"
    and "reaches net get_params peer (wamp_threads n js e side) t" and "main t = M_deliver m"
  shows "\<exists>w. (\<forall>v. main_step net get_params (handler t, main t) v \<longleftrightarrow>
       v = ((handler t)\<lparr>user := (user (handler t))\<lparr>program := w\<rparr>\<rparr>, M_check)) \<and>
     tr w = tr (program (user (handler t))) @
       (case message_of js m of None \<Rightarrow> [] | Some msg \<Rightarrow> [Wamp_message msg])"
proof -
  let ?h = "handler t"
  from wamp_reaches_in_session [OF assms(1-4)] have "wamp_marks tr (user ?h)"
    by (simp add: main_in_session_def tracked_def observed_def)
  from lambda_on_message [OF assms(1) this, of m] obtain r w where
    w: "lambda (on_message js m) (user ?h) = (r, (user ?h)\<lparr>program := w\<rparr>)"
    "tr w = tr (program (user ?h)) @ (case message_of js m of None \<Rightarrow> [] | Some msg \<Rightarrow> [Wamp_message msg])"
    by blast
  obtain q where "on_user (Some (lambda (on_message js m))) ?h = (q, ?h\<lparr>user := (user ?h)\<lparr>program := w\<rparr>\<rparr>)"
    "main_swallows M_check q = M_check"
    by (cases r) (simp_all add: on_user_apply w(1))
  with w(2) show ?thesis
    by (intro exI [of _ w]) (simp add: assms(5) deliver_iff wamp_reaches_on_message [OF assms(4)])
qed

theorem wamp_threads_dispatch_witness:
  "\<exists>t v. reaches scripted_ws found still (wamp_threads 1 small_json [Frame event_text 0x81] logging_side) t \<and>
     main_step scripted_ws found (handler t, main t) v \<and> snd v = M_check \<and>
     program (user (fst v)) = [Wamp_connected, Wamp_message (Event ''e'' ''d'')]"
proof -
  have m: "message_of small_json event_text = Some (Event ''e'' ''d'')"
    by (simp add: message_of_def small_json_def read_event_text field_def event_text_nonempty)
  let ?h = "listening\<lparr>outside := []\<rparr>"
  from wamp_threads_dispatch [OF small_json_errors logging_side_marks _ event_arrives, of event_text]
  obtain w where "main_step scripted_ws found (?h, M_deliver event_text) (?h\<lparr>user := (user ?h)\<lparr>program := w\<rparr>\<rparr>, M_check)"
    "w = [Wamp_connected, Wamp_message (Event ''e'' ''d'')]"
    by (auto simp: m logging_side_def event_simps)
  then show ?thesis
    by (intro exI [of _ "\<lparr>handler = ?h, main = M_deliver event_text, clients = [C_idle]\<rparr>"]
        exI [of _ "(?h\<lparr>user := (user ?h)\<lparr>program := w\<rparr>\<rparr>, M_check)"]) (simp add: event_arrives [unfolded One_nat_def])
qed

end
