(* ===== verification/Lcu_Websocket_Pace.thy ===== *)
theory Lcu_Websocket_Pace
  imports Lcu_Websocket
begin

text \<open>
  The pace of \<open>Lcu_websocket_handler\<close>: when its loop looks for the League client, when it sleeps, and
  how it comes back after a lost connection. The environment is extended with a record of the
  attempts and the sleeps; everything else is the environment of \<open>Lcu_Websocket\<close>.
\<close>

subsection \<open>Recording attempts and sleeps\<close>

datatype pace = Attempt | Pause nat

definition unrecorded :: "('e, 'a) ext \<Rightarrow> ('e \<times> pace list, 'a) ext" where
  "unrecorded f = (\<lambda>(e, l). case f e of (r, e') \<Rightarrow> (r, (e', l)))"

definition paced_ws :: "('e, 'n, 'k) poco_ws \<Rightarrow> ('e \<times> pace list, 'n, 'k) poco_ws" where
  "paced_ws net =
     \<lparr>ws_session = (\<lambda>h p. unrecorded (ws_session net h p)),
      ws_connect = (\<lambda>n cr. unrecorded (ws_connect net n cr)),
      ws_set_max_payload_size = (\<lambda>k n. unrecorded (ws_set_max_payload_size net k n)),
      ws_send_frame = (\<lambda>k m l f. unrecorded (ws_send_frame net k m l f)),
      ws_receive_frame = (\<lambda>k buf. unrecorded (ws_receive_frame net k buf)),
      ws_shutdown = (\<lambda>k. unrecorded (ws_shutdown net k)),
      ws_ready = (\<lambda>k (e, l). ws_ready net k e),
      ws_sleep_for = (\<lambda>n (e, l). (ws_sleep_for net n e, l @ [Pause n]))\<rparr>"

text \<open>An attempt begins with the search for the client's process.\<close>

definition paced_params :: "('e, lcu_parameters) ext \<Rightarrow> ('e \<times> pace list, lcu_parameters) ext" where
  "paced_params get_params = (\<lambda>(e, l). case get_params e of (r, e') \<Rightarrow> (r, (e', l @ [Attempt])))"

subsection \<open>What leaves the record alone\<close>

definition same_pace :: "'c \<times> ('e \<times> pace list) \<Rightarrow> 'c \<times> ('e \<times> pace list) \<Rightarrow> bool" where
  "same_pace a b \<longleftrightarrow> snd (snd b) = snd (snd a)"

lemma same_pace_order: "reflp same_pace" "transp same_pace"
  by (auto simp: same_pace_def intro!: reflpI transpI)

lemma unrecorded_pace: "keeps same_pace (on_env (lift_ext (unrecorded f)))"
  by (rule keepsI)
     (auto simp: same_pace_def on_env_def lift_ext_def unrecorded_def split: prod.splits sum.splits)

lemma set_pace: "keeps same_pace (set_connected b)" "keeps same_pace (set_websocket k)"
  by (rule keepsI, auto simp: same_pace_def set_connected_def set_websocket_def split: prod.split)+

lemmas pace_rules = keeps_andthen keeps_try_catch keeps_ret keeps_throw same_pace_order set_pace unrecorded_pace

lemma keeps_split: "(\<And>c e. R (c, e) (snd (m (c, e)))) \<Longrightarrow> keeps R m"
  by (rule keepsI) (metis prod.collapse)

lemma shutdown_pace:
  "keeps same_pace (andthen (set_connected False) (\<lambda>_. on_env (lift_ext (ws_shutdown (paced_ws net) k))))"
  by (simp add: paced_ws_def) (intro pace_rules)

lemma ws_stop_pace: "keeps same_pace (ws_stop (paced_ws net))"
  unfolding ws_stop_def
proof (intro pace_rules keeps_split)
  show "same_pace (c, e) (snd (case (c, e) of (c, e) \<Rightarrow> (case wc_websocket c of
          Some k \<Rightarrow> if wc_connected c
            then andthen (set_connected False) (\<lambda>_. on_env (lift_ext (ws_shutdown (paced_ws net) k))) (c, e)
            else ret () (c, e)
        | None \<Rightarrow> ret () (c, e))))" for c e
    using keepsD [OF shutdown_pace, of "(c, e)" net] by (simp add: same_pace_def split: option.split)
qed

lemma connect_pace:
  "keeps same_pace
     (try_catch
       (andthen (on_env (lift_ext (ws_connect (paced_ws net) n cr))) (\<lambda>k.
        andthen (set_websocket (Some k)) (\<lambda>_.
        andthen (on_env (lift_ext (ws_set_max_payload_size (paced_ws net) k max_frame_size))) (\<lambda>_.
        set_connected True))))
       (\<lambda>x. case x of
          Poco WebSocketException m \<Rightarrow> throw (Rito Websocket_exception (''Failed to connect to websocket: '' @ m))
        | _ \<Rightarrow> if is_std_exception x then throw (Rito Unknown_exception (what x)) else throw x))"
  unfolding paced_ws_def
  by (simp, intro pace_rules) (auto intro!: pace_rules split: exn.split poco_class.split)

lemma ws_start_pace: "keeps same_pace (ws_start (paced_ws net))"
proof (rule keeps_split)
  show "same_pace (c, e) (snd (ws_start (paced_ws net) (c, e)))" for c e
    using keepsD [OF connect_pace [of net "wc_session c" "wc_request c"], of "(c, e)"]
    by (simp add: ws_start_def same_pace_def)
qed

lemma receive_frames_pace: "keeps same_pace (receive_frames (paced_ws net) k i buf)"
proof (induction "paced_ws net" k i buf rule: receive_frames.induct)
  case (1 k i buf)
  have "keeps same_pace (on_env (lift_ext (ws_receive_frame (paced_ws net) k buf)))"
    unfolding paced_ws_def by (simp add: unrecorded_pace)
  then show ?case
    unfolding receive_frames.simps [of "paced_ws net" k i buf]
    by (auto intro!: pace_rules 1 split: prod.split)
qed

lemma receive_attempt_pace: "keeps same_pace (receive_attempt (paced_ws net) k)"
  unfolding receive_attempt_def receive_handler_def
  by (auto intro!: pace_rules receive_frames_pace
      split: option.split exn.split poco_class.split rito_class.split)

lemma ws_receive_pace: "keeps same_pace (ws_receive_message (paced_ws net))"
proof (rule keeps_split)
  show "same_pace (c, e) (snd (ws_receive_message (paced_ws net) (c, e)))" for c e
  proof (cases "wc_websocket c")
    case (Some k)
    with keepsD [OF receive_attempt_pace, of "(c, e)" net k] show ?thesis
      by (auto simp: ws_receive_Some same_pace_def split: prod.splits res.splits option.splits)
  qed (simp add: ws_receive_message_def same_pace_def)
qed

text \<open>The same for the handler.\<close>

definition pace_of :: "('e \<times> pace list, 'n, 'k, 'w) ws_handler \<Rightarrow> pace list" where
  "pace_of s = snd (outside s)"

lemma on_socket_pace:
  assumes "keeps same_pace m" and "on_socket m s = (r, t)"
  shows "pace_of t = pace_of s"
proof (cases "m_websocket s")
  case None
  with assms(2) show ?thesis by (simp add: on_socket_def)
next
  case (Some c)
  obtain q c' e' where m: "m (c, outside s) = (q, (c', e'))" by (metis prod.collapse)
  with keeps_resD [OF assms(1) m] on_socket_Some [of s c m, OF Some m] assms(2) show ?thesis
    by (auto simp: pace_of_def same_pace_def)
qed

lemma on_user_pace: "on_user f s = (r, t) \<Longrightarrow> pace_of t = pace_of s"
  by (auto simp: on_user_apply pace_of_def split: option.splits prod.splits sum.splits)

lemma notify_pace: "notify_connection_state_changed b s = (r, t) \<Longrightarrow> pace_of t = pace_of s"
  by (cases "m_is_state_connected s = b")
     (auto simp: notify_quiet notify_changed pace_of_def on_user_apply
       split: option.splits prod.splits sum.splits if_splits)

lemma receive_message_pace:
  assumes "receive_message (paced_ws net) s = (r, t)"
  shows "pace_of t = pace_of s"
proof -
  obtain q u where os: "on_socket (ws_receive_message (paced_ws net)) s = (q, u)"
    by (cases "on_socket (ws_receive_message (paced_ws net)) s")
  from on_socket_pace [OF ws_receive_pace os] have "pace_of u = pace_of s" .
  then show ?thesis
    using assms os
    by (cases q) (auto simp: receive_message_def try_catch_def andthen_def split: prod.splits res.splits
        dest: on_user_pace)
qed

text \<open>An attempt asks for the parameters once.\<close>

lemma reconnect_pace:
  assumes "handler_inv s" and "\<not> is_connected s" and "reconnect (paced_ws net) (paced_params get_params) s = (r, t)"
  shows "pace_of t = pace_of s @ [Attempt]"
proof -
  obtain e l where out: "outside s = (e, l)" by (cases "outside s")
  obtain q e1 where gp: "get_params e = (q, e1)" by (metis prod.collapse)
  have p: "paced_params get_params (e, l) = (q, (e1, l @ [Attempt]))"
    by (simp add: paced_params_def gp)
  show ?thesis
  proof (cases q)
    case (Inl x)
    with assms(3) p show ?thesis
      by (simp add: reconnect_disconnected [OF assms(1,2)] out pace_of_def) auto
  next
    case (Inr v)
    obtain n e2 where n: "ws_session net ''127.0.0.1'' (app_port v) e1 = (n, e2)" by (metis prod.collapse)
    then have n': "ws_session (paced_ws net) ''127.0.0.1'' (app_port v) (e1, l @ [Attempt]) = (n, (e2, l @ [Attempt]))"
      by (simp add: paced_ws_def unrecorded_def)
    show ?thesis
    proof (cases n)
      case (Inl x)
      with assms(3) p n' Inr show ?thesis
        by (simp add: reconnect_disconnected [OF assms(1,2)] out pace_of_def) auto
    next
      case m: (Inr m)
      let ?s = "s\<lparr>m_websocket := Some (lcu_client v m), outside := (e2, l @ [Attempt])\<rparr>"
      from assms(3) p n' Inr m have "on_socket (ws_start (paced_ws net)) ?s = (r, t)"
        by (simp add: reconnect_disconnected [OF assms(1,2)] out)
      from on_socket_pace [OF ws_start_pace this] show ?thesis by (simp add: pace_of_def out)
    qed
  qed
qed

subsection \<open>Coming back\<close>

text \<open>What a notification adds to the user's record.\<close>

lemma notify_trace:
  assumes "observed I tr s"
  shows "\<exists>t. notify_connection_state_changed b s = (Ok (), t) \<and> observed I tr t \<and> m_websocket t = m_websocket s \<and>
     outside t = outside s \<and> m_is_state_connected t = b \<and>
     tr (user t) = tr (user s) @ (if m_is_state_connected s = b then [] else [if b then Connected else Disconnected])"
proof (cases "m_is_state_connected s = b")
  case True
  with assms show ?thesis by (auto simp: notify_quiet)
next
  case False
  define f where "f = (if b then m_on_connected s else m_on_disconnected s)"
  define ev where "ev = (if b then Connected else Disconnected)"
  from assms obtain g where g: "f = Some g" "fst (g (user s)) = Inr ()" "tr (snd (g (user s))) = tr (user s) @ [ev]"
      "I (snd (g (user s)))"
    by (cases b) (auto simp: observed_def marks_def f_def ev_def)
  with assms False show ?thesis
    by (cases "g (user s)")
       (auto simp: notify_changed on_user_apply f_def [symmetric] ev_def observed_def)
qed

text \<open>The League client is there: its parameters are found, and POCO opens the connection.\<close>

definition reachable_client ::
  "('e, 'n, 'k) poco_ws \<Rightarrow> ('e, lcu_parameters) ext \<Rightarrow> 'e \<Rightarrow> 'e \<Rightarrow> bool" where
  "reachable_client net get_params e e' \<longleftrightarrow>
     (\<exists>p e1 n e2 k e3. get_params e = (Inr p, e1) \<and>
        ws_session net ''127.0.0.1'' (app_port p) e1 = (Inr n, e2) \<and>
        ws_connect net n [(''riot'', remoting_auth_token p)] e2 = (Inr k, e3) \<and>
        ws_set_max_payload_size net k max_frame_size e3 = (Inr (), e'))"

lemma reconnect_reachable:
  assumes "handler_inv s" and "\<not> is_connected s" and "reachable_client net get_params (outside s) e'"
  shows "\<exists>c. reconnect net get_params s = (Ok (), s\<lparr>m_websocket := Some c, outside := e'\<rparr>) \<and> ws_inv c \<and> ws_is_connected c"
proof -
  from assms(3) obtain p e1 n e2 k e3 where
    "get_params (outside s) = (Inr p, e1)" "ws_session net ''127.0.0.1'' (app_port p) e1 = (Inr n, e2)"
    "ws_connect net n [(''riot'', remoting_auth_token p)] e2 = (Inr k, e3)"
    "ws_set_max_payload_size net k max_frame_size e3 = (Inr (), e')"
    by (auto simp: reachable_client_def)
  then show ?thesis
    by (auto simp: reconnect_disconnected [OF assms(1,2)] on_socket_def ws_start_def lcu_client_def andthen_def
        try_catch_def on_env_def lift_ext_def set_websocket_def set_connected_def ws_inv_def ws_is_connected_def)
qed

subsection \<open>Properties\<close>

text \<open>C17. The loop looks for the League client once per round and only while it is not connected, and it
  sleeps \<open>event_loop_delay\<close> exactly in the rounds that leave the user not told of a connection: a failed
  attempt, and one whose callback threw, is followed by a second's rest, a successful one is not.\<close>

theorem attempts_are_paced:
  assumes "handler_inv s" and "\<not> m_stop s"
    and "loop_body (paced_ws net) (paced_params get_params) s = (Ok False, t)"
  shows "pace_of t = pace_of s @
     (if is_connected s then []
      else if m_is_state_connected t then [Attempt]
      else [Attempt, Pause event_loop_delay])"
proof (cases "is_connected s")
  case True
  with assms(2,3) show ?thesis
    by (auto simp: loop_body_def andthen_def split: prod.splits res.splits dest: receive_message_pace)
next
  case False
  with assms(2,3) have rn: "reconnect_and_notify (paced_ws net) (paced_params get_params) s = (Ok (), t)"
    by (auto simp: loop_body_def andthen_def split: prod.splits res.splits)
  obtain r0 t0 where n: "notify_connection_state_changed False s = (r0, t0)"
    by (cases "notify_connection_state_changed False s")
  with rn have r0: "r0 = Ok ()"
    by (cases r0) (auto simp: reconnect_and_notify_def andthen_def)
  from notify_frame [OF n] notify_handler_inv [OF n] assms(1) False r0
  have t0: "handler_inv t0" "\<not> is_connected t0" "\<not> m_is_state_connected t0" by simp_all
  obtain r1 t1 where rc: "reconnect (paced_ws net) (paced_params get_params) t0 = (r1, t1)"
    by (cases "reconnect (paced_ws net) (paced_params get_params) t0")
  from reconnect_frame [OF t0(1) rc] t0(3) have t1: "\<not> m_is_state_connected t1" "\<not> is_abort r1"
    by (simp_all add: only_socket_def)
  obtain r2 t2 where n2: "notify_connection_state_changed True t1 = (r2, t2)"
    by (cases "notify_connection_state_changed True t1")
  have "pace_of t1 = pace_of s @ [Attempt]" "pace_of t2 = pace_of t1"
    using reconnect_pace [OF t0(1,2) rc] notify_pace [OF n] notify_pace [OF n2] by simp_all
  moreover have "m_is_state_connected t2 \<longleftrightarrow> is_ok r2" using notify_frame [OF n2] t1(1) by auto
  moreover have "\<not> is_abort r2" using notify_frame [OF n2] by simp
  moreover have pause: "pace_of (u\<lparr>outside := ws_sleep_for (paced_ws net) d (outside u)\<rparr>) = pace_of u @ [Pause d]"
    for u :: "('a \<times> pace list, 'b, 'c, 'd) ws_handler" and d
    by (simp add: pace_of_def paced_ws_def split: prod.split)
  ultimately show ?thesis
    using rn False t1
    by (cases r1; cases r2)
       (auto simp: reconnect_and_notify_def andthen_def try_catch_def n r0 rc n2 pause)
qed

text \<open>The witness: no client is running, so the round looks for it once and rests.\<close>

definition absent :: "('e, lcu_parameters) ext" where
  "absent = (\<lambda>e. (Inl (Rito Lcu_not_running_exception ''gone''), e))"

definition waiting_handler :: "(incoming list \<times> pace list, unit, unit, ws_event list) ws_handler" where
  "waiting_handler = with_callbacks (Some recorded_message) (Some (recorded Connected)) (Some (recorded Disconnected))
     (lcu_websocket_handler ([], []) [])"

lemma waiting_handler_simps:
  "handler_inv waiting_handler" "\<not> m_stop waiting_handler" "\<not> is_connected waiting_handler"
  "\<not> m_is_state_connected waiting_handler" "outside waiting_handler = ([], [])" "user waiting_handler = []"
  "observed (\<lambda>w. True) id waiting_handler"
  using recorded_marks
  by (auto simp: waiting_handler_def with_callbacks_def register_message_callback_def register_on_connected_callback_def
      register_on_disconnected_callback_def lcu_websocket_handler_def handler_inv_def is_connected_def observed_def)

theorem attempts_are_paced_witness:
  "\<exists>t. loop_body (paced_ws scripted_ws) (paced_params absent) waiting_handler = (Ok False, t) \<and>
     pace_of t = [Attempt, Pause 1]"
proof -
  let ?net = "paced_ws scripted_ws" and ?get = "paced_params absent"
  have p: "?get ([], []) = (Inl (Rito Lcu_not_running_exception ''gone''), ([], [Attempt]))"
    by (simp add: paced_params_def absent_def)
  have "\<exists>t. loop_body ?net ?get waiting_handler = (Ok False, t) \<and> \<not> m_is_state_connected t"
    by (simp add: loop_body_def reconnect_and_notify_def waiting_handler_simps andthen_def try_catch_def notify_quiet
        reconnect_disconnected p)
  then obtain t where t: "loop_body ?net ?get waiting_handler = (Ok False, t)" "\<not> m_is_state_connected t" by blast
  from attempts_are_paced [OF waiting_handler_simps(1,2) t(1)] t(2) have "pace_of t = [Attempt, Pause 1]"
    by (simp add: waiting_handler_simps pace_of_def event_loop_delay_def)
  with t(1) show ?thesis by blast
qed

text \<open>C16. A lost connection comes back: in the first round in which the League client is there and POCO connects,
  the handler reports the loss, if the user had been told of a connection, then the new connection, and is
  connected.\<close>

theorem lost_connection_comes_back:
  assumes "handler_inv s" and "observed I tr s" and "\<not> m_stop s" and "\<not> is_connected s"
    and "reachable_client net get_params (outside s) e'"
  shows "\<exists>t. loop_body net get_params s = (Ok False, t) \<and> is_connected t \<and> m_is_state_connected t \<and> outside t = e' \<and>
     tr (user t) = tr (user s) @ (if m_is_state_connected s then [Disconnected, Connected] else [Connected])"
proof -
  from notify_trace [OF assms(2), of False] obtain t0 where
    n: "notify_connection_state_changed False s = (Ok (), t0)" "observed I tr t0" "m_websocket t0 = m_websocket s"
      "outside t0 = outside s" "\<not> m_is_state_connected t0"
      "tr (user t0) = tr (user s) @ (if m_is_state_connected s then [Disconnected] else [])" by auto
  from n assms have "handler_inv t0" "\<not> is_connected t0" "reachable_client net get_params (outside t0) e'"
    by (simp_all add: handler_inv_def is_connected_def)
  from reconnect_reachable [OF this] obtain c where c: "ws_is_connected c"
    "reconnect net get_params t0 = (Ok (), t0\<lparr>m_websocket := Some c, outside := e'\<rparr>)" (is "_ = (_, ?t1)") by blast
  from n(2) have "observed I tr ?t1" by (simp add: observed_def)
  from notify_trace [OF this, of True] obtain t where
    "notify_connection_state_changed True ?t1 = (Ok (), t)" "m_websocket t = Some c" "outside t = e'"
      "m_is_state_connected t" "tr (user t) = tr (user t0) @ [Connected]" using n(5) by auto
  with n c assms(3,4) show ?thesis
    by (simp add: loop_body_def reconnect_and_notify_def andthen_def try_catch_def is_connected_def)
qed

theorem lost_connection_comes_back_witness:
  "\<exists>t. loop_body (paced_ws scripted_ws) (unrecorded found) (waiting_handler\<lparr>m_is_state_connected := True\<rparr>) = (Ok False, t) \<and>
     is_connected t \<and> user t = [Disconnected, Connected]"
proof -
  let ?s = "waiting_handler\<lparr>m_is_state_connected := True\<rparr>"
  have "handler_inv ?s" "observed (\<lambda>w. True) id ?s" "\<not> m_stop ?s" "\<not> is_connected ?s"
    using waiting_handler_simps by (simp_all add: handler_inv_def observed_def is_connected_def)
  moreover have "reachable_client (paced_ws scripted_ws) (unrecorded found) (outside ?s) ([], [])"
    by (simp add: reachable_client_def waiting_handler_simps paced_ws_def unrecorded_def scripted_ws_def found_def)
  ultimately show ?thesis
    using lost_connection_comes_back [of ?s "\<lambda>w. True" id "paced_ws scripted_ws" "unrecorded found" "([], [])"]
    by (auto simp: waiting_handler_simps)
qed

end
