(* ===== verification/Lcu_Websocket_Races.thy ===== *)
theory Lcu_Websocket_Races
  imports Lcu_Websocket_Threads
begin

text \<open>
  What goes wrong between the threads of \<open>Lcu_Websocket_Threads\<close>: \<open>send_message\<close> tests the connection
  under the mutex and takes it again to send, \<open>stop\<close> tests it under the mutex and then uses
  \<open>m_websocket\<close> without it, while the thread in \<open>run\<close> resets the pointer. The calls end at a null
  pointer or in a destroyed object.
\<close>

subsection \<open>The runs\<close>

lemma null_send: "m_websocket h = None \<Longrightarrow> on_socket m h = (Abort Null_dereference, h)"
  by (simp add: on_socket_def)

text \<open>From this state a run exists in which this thread gets to this control point and ends the program there.\<close>

definition may_end ::
  "('e, 'n, 'k) poco_ws \<Rightarrow> ('e, lcu_parameters) ext \<Rightarrow> ('e \<Rightarrow> 'e \<Rightarrow> bool) \<Rightarrow>
     ('e, 'n, 'k, 'w) threads \<Rightarrow> nat \<Rightarrow> client_pc \<Rightarrow> exn abort \<Rightarrow> bool" where
  "may_end net get_params peer s i pc b \<longleftrightarrow>
     (\<exists>t u. reaches net get_params peer s t \<and> clients t ! i = pc \<and>
        thread_step net get_params peer t u \<and> clients u ! i = C_ended b)"

lemma may_endI:
  assumes "reaches net get_params peer s \<lparr>handler = h, main = pc, clients = cs\<rparr>"
    and "client_step net (\<not> locked pc) (h, cs ! i) (h', C_ended b)"
    and "main_alive pc" and "list_all client_alive cs" and "i < length cs"
  shows "may_end net get_params peer s i (cs ! i) b"
proof -
  let ?t = "\<lparr>handler = h, main = pc, clients = cs\<rparr>"
  have "thread_step net get_params peer ?t (?t\<lparr>handler := h', clients := cs[i := C_ended b]\<rparr>)"
    using client_turn [of i ?t net h' "C_ended b" get_params peer] assms(2-5) by simp
  with assms(1,5) show ?thesis
    unfolding may_end_def by (intro exI [of _ ?t] exI conjI) (assumption | simp)+
qed

text \<open>A thread begins to stop a connected handler, up to the test of the connection.\<close>

lemma stop_begins:
  assumes "reaches net get_params peer s \<lparr>handler = h, main = M_check, clients = cs\<rparr>"
    and "list_all client_alive cs" and "i < length cs" and "cs ! i = C_idle" and "is_connected h"
  shows "reaches net get_params peer s \<lparr>handler = h\<lparr>m_stop := True\<rparr>, main = M_check, clients = cs[i := C_exit]\<rparr>"
proof -
  let ?h = "h\<lparr>m_stop := True\<rparr>"
  have alive: "list_all client_alive (cs[i := C_stop])" by (rule clients_alive_update [OF assms(2)]) simp
  have "reaches net get_params peer s \<lparr>handler = ?h, main = M_check, clients = cs[i := C_stop]\<rparr>"
    using client_moves [OF assms(1), of i ?h C_stop] assms(2-4) client_step.stop [of net True h] by simp
  from client_moves [OF this, of i ?h C_exit] stop_test [of True net ?h] alive assms(3,5) show ?thesis
    by (simp add: is_connected_def)
qed

text \<open>Meanwhile the thread in \<open>run\<close> sees the request and resets the pointer.\<close>

lemma reset_meanwhile:
  assumes "reaches net get_params peer s \<lparr>handler = h, main = M_check, clients = cs\<rparr>"
    and "list_all client_alive cs" and "m_stop h" and "handler_inv h" and "shutdown_returns net"
  shows "\<exists>h'. m_websocket h' = None \<and>
     reaches net get_params peer s \<lparr>handler = h', main = M_leave, clients = left_behind h M_reset cs\<rparr>"
proof -
  from reset_returns [OF assms(4,5)] obtain h' where h': "reset_websocket net h = (Ok (), h')" by blast
  have "reaches net get_params peer s \<lparr>handler = h, main = M_reset, clients = cs\<rparr>"
    using reaches_next [OF assms(1,2), of h M_reset] assms(3) by (simp add: left_behind_def destroys_def)
  from reaches_next [OF this assms(2), of h' M_leave] h'
  have "reaches net get_params peer s \<lparr>handler = h', main = M_leave, clients = left_behind h M_reset cs\<rparr>" by simp
  with reset_websocket_None [OF h'] show ?thesis by blast
qed

lemma stop_null_race:
  assumes "reaches net get_params peer s \<lparr>handler = h, main = M_check, clients = cs\<rparr>"
    and "list_all client_alive cs" and "i < length cs" and "cs ! i = C_idle"
    and "handler_inv h" and "is_connected h" and "shutdown_returns net"
  shows "may_end net get_params peer s i C_exit Null_dereference"
proof -
  let ?h = "h\<lparr>m_stop := True\<rparr>" and ?cs = "cs[i := C_exit]"
  have alive: "list_all client_alive ?cs" by (rule clients_alive_update [OF assms(2)]) simp
  have "handler_inv ?h" using assms(5) by (simp add: handler_inv_def)
  from reset_meanwhile [OF stop_begins [OF assms(1-4,6)] alive _ this assms(7)] obtain h' where
    h': "m_websocket h' = None" and
    r: "reaches net get_params peer s \<lparr>handler = h', main = M_leave, clients = left_behind ?h M_reset ?cs\<rparr>" by auto
  have "left_behind ?h M_reset ?cs ! i = C_exit" using assms(3) by (simp add: left_behind_nth)
  with may_endI [OF r, of i h' Null_dereference] exit [of net True h'] h' alive assms(3) show ?thesis by simp
qed

lemma stop_free_race:
  assumes "reaches net get_params peer s \<lparr>handler = h, main = M_check, clients = cs\<rparr>"
    and "list_all client_alive cs" and "i < length cs" and "cs ! i = C_idle"
    and "handler_inv h" and "is_connected h" and "shutdown_returns net"
  shows "may_end net get_params peer s i C_dangling Use_after_free"
proof -
  let ?h = "h\<lparr>m_stop := True\<rparr>" and ?cs = "cs[i := C_call]"
  have alive: "list_all client_alive (cs[i := C_exit])" "list_all client_alive ?cs"
    by (rule clients_alive_update [OF assms(2)], simp)+
  have h: "handler_inv ?h" "m_websocket ?h \<noteq> None"
    using assms(5,6) by (auto simp: handler_inv_def is_connected_def split: option.splits)
  have c: "reaches net get_params peer s \<lparr>handler = ?h, main = M_check, clients = ?cs\<rparr>"
  proof -
    have "client_step net True (?h, C_exit) (?h, C_call)" using exit [of net True ?h] h(2) by auto
    then show ?thesis using client_moves [OF stop_begins [OF assms(1-4,6)], of i ?h C_call] alive assms(3) by simp
  qed
  from reset_meanwhile [OF c alive(2) _ h(1) assms(7)] obtain h' where
    r: "reaches net get_params peer s \<lparr>handler = h', main = M_leave, clients = left_behind ?h M_reset ?cs\<rparr>" by auto
  have "left_behind ?h M_reset ?cs ! i = C_dangling"
    using assms(3) h(2) by (simp add: left_behind_nth destroys_def)
  with may_endI [OF r, of i h' Use_after_free] dangling [of net True h'] alive assms(3) show ?thesis by simp
qed

lemma notify_disconnects:
  assumes "disconnect_returns h"
  shows "\<exists>h'. notify_connection_state_changed False h = (Ok (), h') \<and> m_websocket h' = m_websocket h \<and>
     m_stop h' = m_stop h \<and> outside h' = outside h"
proof -
  from notify_returns [OF assms] obtain h' where n: "notify_connection_state_changed False h = (Ok (), h')" by blast
  then have "outside h' = outside h"
    by (cases "m_is_state_connected h")
       (auto simp: notify_quiet notify_changed on_user_apply split: option.splits prod.splits sum.splits)
  with notify_frame [OF n] n show ?thesis by blast
qed

lemma send_race:
  assumes "reaches net get_params peer s \<lparr>handler = h, main = M_check, clients = cs\<rparr>"
    and "list_all client_alive cs" and "i < length cs" and "cs ! i = C_idle" and "C_call \<notin> set cs"
    and "handler_inv h" and "is_connected h" and "\<not> m_stop h" and "disconnect_returns h"
    and "receive_message net h = (q, h1)" and "\<not> is_connected h1"
    and "get_params (outside h1) = (Inl x, e)" and "never_waits net"
  shows "may_end net get_params peer s i (C_send m) Null_dereference"
proof -
  have ne: "m_websocket h \<noteq> None" using assms(7) by (auto simp: is_connected_def split: option.splits)
  note rc = receive_message_frame [OF assms(6) ne assms(10)]
  from rc assms(9) have "disconnect_returns h1" by (simp add: disconnect_returns_def)
  from notify_disconnects [OF this] obtain h2 where n: "notify_connection_state_changed False h1 = (Ok (), h2)"
    "m_websocket h2 = m_websocket h1" "m_stop h2 = m_stop h1" "outside h2 = outside h1" by blast
  from n(2) rc assms(11) have inv2: "handler_inv h2" "\<not> is_connected h2"
    by (simp_all add: handler_inv_def is_connected_def)
  let ?h3 = "h2\<lparr>m_websocket := None, outside := e\<rparr>" and ?cs = "cs[i := C_send m]"
  from reconnect_disconnected [OF inv2, of net get_params] n(4) assms(12)
  have r: "reconnect net get_params h2 = (Throw x, ?h3)" by simp
  have alive: "list_all client_alive ?cs" by (rule clients_alive_update [OF assms(2)]) simp
  have nocall: "C_call \<notin> set ?cs" using assms(5) set_update_subset_insert [of cs i "C_send m"] by auto
  have sends: "reaches net get_params peer s \<lparr>handler = h, main = M_check, clients = ?cs\<rparr>"
    using client_moves [OF assms(1), of i h "C_send m"] send [of True net h m] assms(2-4,7) by simp
  have "(main_next net get_params ^^ 2) (h, M_check) = (h, M_receive)"
    using assms(7,8) by (simp add: numeral_eq_Suc)
  note r1 = reaches_nexts [OF sends alive this assms(13) nocall]
  from receive_steps [OF assms(6,7,10), of get_params] obtain n where
    "(main_next net get_params ^^ n) (h, M_receive) = (h1, M_check)" by blast
  note r2 = reaches_nexts [OF r1 alive this assms(13) nocall]
  have "(main_next net get_params ^^ 3) (h1, M_check) = (h2, M_reconnect)"
    using assms(8,11) rc n by (simp add: numeral_eq_Suc)
  from reaches_own [OF reconnect_steps [OF inv2 r] reaches_nexts [OF r2 alive this assms(13) nocall] alive nocall]
  have r3: "reaches net get_params peer s \<lparr>handler = ?h3, main = M_sleep, clients = ?cs\<rparr>" by simp
  from may_endI [OF r3, of i ?h3 Null_dereference] send_locked [OF TrueI null_send [of ?h3], of net m] alive assms(3)
  show ?thesis by simp
qed

text \<open>In the witnesses the peer closes the connection.\<close>

lemma met_loses:
  "\<exists>h q. receive_message scripted_ws met = (q, h) \<and> \<not> is_connected h \<and> outside h = []"
proof -
  have "assemble 255 [] (map clip [Frame [] 0]) = (Peer_closed, [])"
    by (simp add: numeral_eq_Suc)
  then have "ws_receive_message scripted_ws (open_client, [Frame [] 0]) =
     (Throw (Rito Websocket_exception ''Websocket client is disconnected''),
      (open_client\<lparr>wc_connected := False\<rparr>, []))"
    using receive_outcome [where net = scripted_ws and k = "()" and inc = "map clip"
        and c = open_client and e = "[Frame [] 0]"] scripted_delivers [of "()"]
    by simp
  then show ?thesis
    by (simp add: receive_message_def met_def fresh_simps on_socket_def andthen_def try_catch_def
        is_connected_def ws_is_connected_def)
qed

subsection \<open>Properties\<close>

text \<open>C29. \<open>stop\<close> from another thread can end the program, although it has just seen \<open>is_connected()\<close>. From every
  reachable state with a connected handler, the thread in \<open>run\<close> at the top of its loop and another thread that is
  in no call, a run exists in which that thread ends the program in \<open>stop\<close> at a null pointer, because the thread
  in \<open>run\<close> sees the request and resets the pointer before \<open>stop\<close> reads it to send \<open>Exit\<close>; and one in which it
  does in a destroyed object, because the reset comes while \<open>stop\<close> is inside the client's \<open>send_message\<close>,
  without the mutex. (\<open>C_exit\<close> and \<open>C_dangling\<close> are control points of \<open>stop\<close> only.)\<close>

theorem stop_races_with_run:
  assumes "handler_inv h0" and "reaches net get_params peer (start_threads n h0) t"
    and "main t = M_check" and "is_connected (handler t)" and "list_all client_alive (clients t)"
    and "i < length (clients t)" and "clients t ! i = C_idle" and "shutdown_returns net"
  shows "may_end net get_params peer t i C_exit Null_dereference \<and>
     may_end net get_params peer t i C_dangling Use_after_free"
proof -
  have "reaches net get_params peer t \<lparr>handler = handler t, main = M_check, clients = clients t\<rparr>"
    using here [of net get_params peer t] assms(3) by (cases t) simp
  moreover have "handler_inv (handler t)" using reaches_safe [OF assms(2,1)] by (simp add: main_safe_def)
  ultimately show ?thesis using stop_null_race stop_free_race assms(4-8) by blast
qed

theorem stop_races_with_run_witness:
  "\<exists>t. reaches scripted_ws there_while still (start_threads 1 fresh) t \<and> main t = M_check \<and>
     may_end scripted_ws there_while still t 0 C_exit Null_dereference \<and>
     may_end scripted_ws there_while still t 0 C_dangling Use_after_free"
  using stop_races_with_run [OF fresh_inv met_reached [of still 1], of 0] met_reached [of still 1]
  by (auto simp: met_facts scripted_shutdown intro!: exI [of _ "\<lparr>handler = met, main = M_check, clients = [C_idle]\<rparr>"])

text \<open>C30. \<open>send_message\<close> can dereference the null client too: it tests under the lock, releases it, and takes it
  again to send. From every reachable state with a connected handler, the thread in \<open>run\<close> at the top of its loop
  and another thread that is in no call, when the message that comes next loses the connection and the League
  client is gone, a run exists in which that thread ends the program in \<open>send_message\<close>, of any text, at the null
  pointer that \<open>reconnect\<close> leaves. (\<open>C_send\<close> is the control point of \<open>send_message\<close> after its test.)\<close>

theorem send_null_dereference:
  assumes "handler_inv h0" and "reaches net get_params peer (start_threads n h0) t"
    and "main t = M_check" and "is_connected (handler t)" and "list_all client_alive (clients t)"
    and "i < length (clients t)" and "clients t ! i = C_idle" and "C_call \<notin> set (clients t)"
    and "\<not> m_stop (handler t)" and "disconnect_returns (handler t)"
    and "receive_message net (handler t) = (q, h1)" and "\<not> is_connected h1"
    and "get_params (outside h1) = (Inl x, e)" and "never_waits net"
  shows "may_end net get_params peer t i (C_send m) Null_dereference"
proof -
  have r: "reaches net get_params peer t \<lparr>handler = handler t, main = M_check, clients = clients t\<rparr>"
    using here [of net get_params peer t] assms(3) by (cases t) simp
  have "handler_inv (handler t)" using reaches_safe [OF assms(2,1)] by (simp add: main_safe_def)
  from send_race [OF r assms(5-8) this assms(4,9-14)] show ?thesis .
qed

theorem send_null_dereference_witness:
  "\<exists>t. reaches scripted_ws there_while still (start_threads 1 fresh) t \<and>
     may_end scripted_ws there_while still t 0 (C_send ''hello'') Null_dereference"
proof -
  from met_loses obtain h q where h: "receive_message scripted_ws met = (q, h)" "\<not> is_connected h" "outside h = []"
    by blast
  have "there_while (outside h) = (Inl (Rito Lcu_not_running_exception ''gone''), [])"
    by (simp add: there_while_def h(3))
  with send_null_dereference [OF fresh_inv met_reached [of still 1], of 0 q h] h(1,2) met_reached [of still 1]
  show ?thesis by (auto simp: met_facts scripted_never_waits)
qed

end
