(* ===== verification/Lcu_Websocket_Stop.thy ===== *)
theory Lcu_Websocket_Stop
  imports Lcu_Websocket_Threads
begin

text \<open>
  How a stop request ends \<open>run\<close> under the threads of \<open>Lcu_Websocket_Threads\<close>: a bound on the steps of
  the thread in \<open>run\<close>, and why it does not wait for ever in \<open>receiveFrame\<close>: the last act of \<open>stop\<close> is a
  message to the League client, whose answer ends the wait ("any message will do").
\<close>

subsection \<open>A stop request is heeded\<close>

text \<open>Interleaved runs until \<open>run\<close> returns, with the number of steps that its thread takes in them.\<close>

inductive main_turns ::
  "('e, 'n, 'k) poco_ws \<Rightarrow> ('e, lcu_parameters) ext \<Rightarrow> ('e \<Rightarrow> 'e \<Rightarrow> bool) \<Rightarrow>
     ('e, 'n, 'k, 'w) threads \<Rightarrow> nat \<Rightarrow> ('e, 'n, 'k, 'w) threads \<Rightarrow> bool"
  for net get_params peer s where
  no_turn: "main_turns net get_params peer s 0 s"
| own_turn: "main_turns net get_params peer s k t \<Longrightarrow> main_step net get_params (handler t, main t) (h, pc) \<Longrightarrow>
    main t \<noteq> M_done \<Longrightarrow> list_all client_alive (clients t) \<Longrightarrow>
    main_turns net get_params peer s (Suc k)
      (t\<lparr>handler := h, main := pc, clients := left_behind (handler t) (main t) (clients t)\<rparr>)"
| other_turn: "main_turns net get_params peer s k t \<Longrightarrow> i < length (clients t) \<Longrightarrow>
    client_step net (\<not> locked (main t)) (handler t, clients t ! i) (h, pc) \<Longrightarrow> main_alive (main t) \<Longrightarrow>
    list_all client_alive (clients t) \<Longrightarrow>
    main_turns net get_params peer s k (t\<lparr>handler := h, clients := (clients t)[i := pc]\<rparr>)"
| outside_turn: "main_turns net get_params peer s k t \<Longrightarrow> peer (outside (handler t)) e \<Longrightarrow> main_alive (main t) \<Longrightarrow>
    list_all client_alive (clients t) \<Longrightarrow>
    main_turns net get_params peer s k (t\<lparr>handler := (handler t)\<lparr>outside := e\<rparr>\<rparr>)"

lemma main_turns_reaches:
  "main_turns net get_params peer s k t \<Longrightarrow> reaches net get_params peer s t"
  by (induction rule: main_turns.induct) (auto intro: reaches.intros thread_step.intros)

lemma reaches_trans:
  "reaches net get_params peer t u \<Longrightarrow> reaches net get_params peer s t \<Longrightarrow> reaches net get_params peer s u"
  by (induction rule: reaches.induct) (auto intro: reaches.intros)

text \<open>How many steps it has left once the request is there, at most.\<close>

fun steps_left :: "main_pc \<Rightarrow> nat" where
  "steps_left M_start = 263"
| "steps_left M_test = 262"
| "steps_left M_receive = 261"
| "steps_left (M_frames i b) = 260 - unat i"
| "steps_left M_lost = 10"
| "steps_left M_reconnect = 9"
| "steps_left M_lookup = 8"
| "steps_left (M_create p) = 7"
| "steps_left M_connect = 6"
| "steps_left M_found = 5"
| "steps_left (M_deliver m) = 4"
| "steps_left M_sleep = 4"
| "steps_left M_check = 3"
| "steps_left M_reset = 2"
| "steps_left M_leave = 1"
| "steps_left M_done = 0"
| "steps_left (M_ended b) = 0"

text \<open>The request stays, and each step of the thread in \<open>run\<close> brings it nearer to the end.\<close>

lemma only_socket_stop: "only_socket h h' \<Longrightarrow> m_stop h' = m_stop h"
  by (simp add: only_socket_def)

lemma frames_left: "i < max_frames_per_message \<Longrightarrow> steps_left (M_frames (i + 1) b) < steps_left (M_frames i a)"
  using loop_counter [of i] by simp

lemma steps_left_frames: "4 < steps_left (M_frames i b)"
proof -
  have "unat i < 256" using unsigned_less [where ?'a = nat, of i] by simp
  then show ?thesis by simp
qed

lemma reconnect_stops:
  assumes "main_safe h pc" and "reconnecting pc" and "main_step net get_params (h, pc) (h', pc')" and "m_stop h"
  shows "m_stop h' \<and> pc' \<noteq> M_start \<and> steps_left pc' < steps_left pc"
  using reconnect_step [OF assms(1-3)] only_socket_stop [of h h'] assms(2,4)
  by (cases pc; cases pc') auto

lemma main_step_stops:
  assumes "main_safe h pc" and "main_step net get_params (h, pc) (h', pc')" and "m_stop h" and "pc \<noteq> M_start"
    and "pc \<noteq> M_done"
  shows "m_stop h' \<and> pc' \<noteq> M_start \<and> steps_left pc' < steps_left pc"
proof -
  from assms(1) have inv: "handler_inv h" and conn: "receiving pc \<Longrightarrow> is_connected h"
    by (simp_all add: main_safe_def)
  from assms(2) show ?thesis
  proof (cases rule: main_step.cases)
    case (reset r)
    from reset_websocket_frame [OF inv reset(3)] reset assms(3) show ?thesis
      by (cases r) (auto simp: only_socket_def)
  next
    case (leave r)
    from notify_frame [OF leave(3)] leave assms(3) show ?thesis by (cases r) auto
  next
    case receive
    with assms(3) show ?thesis by (auto simp: enter_receive_def split: option.split)
  next
    case (frame i buf r)
    with conn have "is_connected h" by simp
    note fr = frame_round [OF inv this frame(3)]
    have "steps_left pc' < steps_left pc"
      using fr frame(1,2) frames_left [of i] steps_left_frames [of i buf]
      by (cases r) (auto simp: after_round_Ok simp del: steps_left.simps(4))
    moreover have "pc' \<noteq> M_start" using frame(2) by (cases r) (auto simp: after_round_Ok)
    ultimately show ?thesis using only_socket_stop [OF conjunct1 [OF fr]] assms(3) by simp
  next
    case (deliver m r)
    from on_user_frame [OF deliver(3)] have "m_stop h' = m_stop h"
      by (metis ws_handler.select_convs(3) ws_handler.surjective ws_handler.update_convs(8))
    with deliver assms(3) show ?thesis by (cases r) auto
  next
    case (lost r)
    from notify_frame [OF lost(3)] lost assms(3) show ?thesis by (cases r) auto
  next
    case (found r)
    from notify_frame [OF found(3)] found assms(3) show ?thesis by (cases r) auto
  next
    case (sleep r)
    with assms(3) show ?thesis by auto
  qed (use assms(3-5) reconnect_stops [OF assms(1) _ assms(2,3)] in auto)
qed

text \<open>After the loop there is no client.\<close>

definition left_alone :: "('e, 'n, 'k, 'w) ws_handler \<Rightarrow> main_pc \<Rightarrow> bool" where
  "left_alone h pc \<longleftrightarrow> (pc = M_leave \<or> pc = M_done \<longrightarrow> m_websocket h = None)"

lemma main_step_left:
  assumes "left_alone h pc" and "main_step net get_params (h, pc) (h', pc')"
  shows "left_alone h' pc'"
  using assms(2)
proof (cases rule: main_step.cases)
  case (reset r)
  then show ?thesis by (auto simp: left_alone_def dest: reset_websocket_None)
next
  case (leave r)
  from notify_frame [OF leave(3)] leave(1) assms(1) show ?thesis by (simp add: left_alone_def)
next
  case (frame i buf r)
  then show ?thesis by (cases r) (auto simp: left_alone_def after_round_Ok)
qed (auto simp: left_alone_def enter_receive_def split: if_splits option.splits goes_splits)

lemma reaches_left:
  assumes "reaches net get_params peer (start_threads n h) t"
  shows "left_alone (handler t) (main t)"
proof (rule reaches_main_invariant [OF assms])
  show "main_invariant net get_params left_alone"
    by (rule main_invariantI, erule (1) main_step_left) (simp add: left_alone_def)
qed (simp add: left_alone_def start_threads_def)

lemma stopping_turns:
  assumes "main_turns net get_params peer s k t" and "main_safe (handler s) (main s)" and "m_stop (handler s)"
    and "main s \<noteq> M_start"
  shows "main_safe (handler t) (main t) \<and> m_stop (handler t) \<and> main t \<noteq> M_start \<and>
     k + steps_left (main t) \<le> steps_left (main s)"
  using assms(1)
proof induction
  case no_turn
  with assms(2-4) show ?case by simp
next
  case (own_turn k t h pc)
  then have safe: "main_safe (handler t) (main t)" by simp
  from main_step_stops [OF safe own_turn(2) _ _ own_turn(3)] own_turn.IH have "m_stop h \<and> pc \<noteq> M_start \<and> steps_left pc < steps_left (main t)"
    by simp
  moreover from safe own_turn(2) have "main_safe h pc" by (rule main_step_safe)
  ultimately show ?case using own_turn.IH by simp
next
  case (other_turn k t i h pc)
  then have "m_stop h" using client_step_keeps_stop by blast
  moreover obtain e b where "h = (handler t)\<lparr>m_stop := b, outside := e\<rparr>"
    using client_step_frame [OF other_turn(3)] by blast
  ultimately show ?case using other_turn.IH by (simp add: main_safe_def handler_inv_def is_connected_def)
next
  case (outside_turn k t e)
  then show ?case by (simp add: main_safe_def)
qed

lemma main_goes_on:
  assumes "main_safe h pc" and "left_alone h pc"
  shows "(pc = M_done \<longrightarrow> m_websocket h = None) \<and>
     ((\<exists>x. pc = M_ended (Terminate x)) \<or> waits net (h, pc) \<or> (\<exists>u. main_step net get_params (h, pc) u))"
proof -
  have "main_alive pc \<or> (\<exists>x. pc = M_ended (Terminate x))"
    using assms(1) by (cases pc) (simp_all add: main_safe_def)
  moreover have "pc = M_done \<longrightarrow> m_websocket h = None" using assms(2) by (simp add: left_alone_def)
  ultimately show ?thesis using main_step_next [of pc net h get_params] by blast
qed

subsection \<open>The answer to \<open>Exit\<close> ends the wait\<close>

text \<open>A frame, or a failure, at which \<open>receive_message\<close> ends.\<close>

fun finishing :: "incoming \<Rightarrow> bool" where
  "finishing (Frame p fl) = (fl AND frame_flag_fin \<noteq> 0 \<or> p = [] \<and> fl = 0)"
| "finishing (Failure x) = True"

text \<open>
  What the code relies on, with \<open>inc k\<close> what is on its way on a socket: POCO delivers it in order and
  waits only when there is nothing; sending and the world outside only add to it; and the League client
  answers \<open>Exit\<close> with a frame that ends a message, or closes the connection, or POCO's timeout fires.
\<close>

definition answers_exit ::
  "('e, 'n, 'k) poco_ws \<Rightarrow> ('e \<Rightarrow> 'e \<Rightarrow> bool) \<Rightarrow> ('k \<Rightarrow> 'e \<Rightarrow> incoming list) \<Rightarrow> bool" where
  "answers_exit net peer inc \<longleftrightarrow>
     (\<forall>k. delivers net k (inc k)) \<and>
     (\<forall>k e. ws_ready net k e \<longleftrightarrow> inc k e \<noteq> []) \<and>
     (\<forall>k e e'. peer e e' \<longrightarrow> (\<exists>gs. inc k e' = inc k e @ gs)) \<and>
     (\<forall>k e m l f r e'. ws_send_frame net k m l f e = (r, e') \<longrightarrow>
        (\<exists>gs. inc k e' = inc k e @ gs \<and> (m = ''Exit'' \<and> (\<exists>n. r = Inr n) \<longrightarrow> list_ex finishing gs)))"

text \<open>The end of the wait is on its way on the handler's socket.\<close>

definition end_in_sight :: "('k \<Rightarrow> 'e \<Rightarrow> incoming list) \<Rightarrow> ('e, 'n, 'k, 'w) ws_handler \<Rightarrow> bool" where
  "end_in_sight inc h \<longleftrightarrow> (\<exists>c k. m_websocket h = Some c \<and> wc_websocket c = Some k \<and> list_ex finishing (inc k (outside h)))"

text \<open>A thread is in a call of \<open>stop\<close> that has not sent \<open>Exit\<close> yet.\<close>

fun stopping :: "client_pc \<Rightarrow> bool" where
  "stopping C_stop = True"
| "stopping C_exit = True"
| "stopping C_call = True"
| "stopping _ = False"

definition stop_pending :: "client_pc list \<Rightarrow> bool" where
  "stop_pending cs \<longleftrightarrow> list_ex stopping cs"

definition to_receive :: "('e, 'n, 'k, 'w) ws_handler \<Rightarrow> main_pc \<Rightarrow> bool" where
  "to_receive h pc \<longleftrightarrow> is_connected h \<and> (receiving pc \<or> pc = M_test)"

text \<open>Why the thread in \<open>run\<close> will not wait for ever: a request that it has not seen is still to send \<open>Exit\<close>, or the
  answer is on its way, or the program has ended.\<close>

definition woken :: "('k \<Rightarrow> 'e \<Rightarrow> incoming list) \<Rightarrow> ('e, 'n, 'k, 'w) threads \<Rightarrow> bool" where
  "woken inc s \<longleftrightarrow> (m_stop (handler s) \<and> to_receive (handler s) (main s) \<longrightarrow>
     stop_pending (clients s) \<or> end_in_sight inc (handler s) \<or> \<not> list_all client_alive (clients s))"

text \<open>The thread in \<open>run\<close> gets to receive only past a test of \<open>m_stop\<close>.\<close>

lemma main_step_to_receive:
  assumes "main_safe h pc" and "main_step net get_params (h, pc) (h', pc')" and "m_stop h'" and "to_receive h' pc'"
    and "pc \<noteq> M_start"
  shows "to_receive h pc \<and> m_stop h \<and> m_websocket h' = m_websocket h \<and> \<not> destroys h pc \<and>
     (h' = h \<or> (\<exists>i b c. on_socket (receive_round net i b) h = (Ok (c, False), h')))"
proof -
  from assms(1) have inv: "handler_inv h" and conn: "receiving pc \<Longrightarrow> is_connected h"
    by (simp_all add: main_safe_def)
  from assms(2) show ?thesis
  proof (cases rule: main_step.cases)
    case (frame i buf r)
    with conn have c: "is_connected h" by simp
    note fr = frame_round [OF inv c frame(3)]
    have "\<exists>b. r = Ok (b, False)"
    proof (cases r)
      case (Ok p)
      with frame(2) assms(4) show ?thesis by (cases p) (auto simp: to_receive_def split: if_splits)
    qed (use frame(2) assms(4) in \<open>auto simp: to_receive_def\<close>)
    then obtain b where b: "r = Ok (b, False)" ..
    with fr have "m_websocket h' = m_websocket h" "m_stop h' = m_stop h" by (simp_all add: only_socket_stop)
    with frame b c assms(3) show ?thesis
      by (auto simp: to_receive_def destroys_def)
  qed (use assms(3-5) in \<open>auto simp: to_receive_def destroys_def split: if_splits goes_splits\<close>)
qed

text \<open>A round that goes on has taken a frame that finishes nothing.\<close>

lemma round_keeps_end:
  assumes "delivers net k (inc k)" and "wc_websocket c = Some k"
    and "receive_round net i b (c, e) = (Ok (b', False), (c', e'))" and "list_ex finishing (inc k e)"
  shows "list_ex finishing (inc k e')"
proof -
  from receive_round_frame [of c net i b e "Ok (b', False)" c' e'] assms(2,3) have lt: "i < max_frames_per_message" by auto
  from assms(4) obtain g fs where g: "inc k e = g # fs" by (cases "inc k e") auto
  note defs = receive_round_def assms(2) try_catch_def andthen_def on_env_def receive_handler_def set_connected_def
  show ?thesis
  proof (cases g)
    case (Failure x)
    with g have "inc k e = Failure x # fs" by simp
    then obtain d where "ws_receive_frame net k b e = (Inl x, d)" "inc k d = fs"
      by (rule delivers_Failure [OF assms(1)])
    with assms(3) lt show ?thesis
      by (auto simp: defs lift_ext_Inl split: exn.splits poco_class.splits rito_class.splits if_splits)
  next
    case (Frame p fl)
    with g have inc: "inc k e = Frame p fl # fs" by simp
    then obtain d where d: "ws_receive_frame net k b e = (Inr (word_of_nat (length p), b @ p, fl), d)" "inc k d = fs"
      "(word_of_nat (length p) = (0 :: 32 word)) \<longleftrightarrow> p = []"
      by (rule delivers_Frame [OF assms(1)])
    with assms(3) lt have "\<not> finishing g \<and> e' = d"
      by (auto simp: defs Frame lift_ext_Inr split: if_splits)
    with assms(4) g d(2) show ?thesis by simp
  qed
qed

lemma end_in_sight_grows:
  assumes "end_in_sight inc h" and "\<And>k. \<exists>gs. inc k e = inc k (outside h) @ gs"
  shows "end_in_sight inc (h\<lparr>m_stop := b, outside := e\<rparr>)"
proof -
  from assms(1) obtain c k where c: "m_websocket h = Some c" "wc_websocket c = Some k"
    "list_ex finishing (inc k (outside h))" by (auto simp: end_in_sight_def)
  from assms(2) [of k] obtain gs where "inc k e = inc k (outside h) @ gs" ..
  with c show ?thesis by (auto simp: end_in_sight_def)
qed

lemma stop_pending_update:
  "stop_pending cs \<Longrightarrow> i < length cs \<Longrightarrow> (stopping (cs ! i) \<Longrightarrow> stopping c) \<Longrightarrow> stop_pending (cs[i := c])"
  unfolding stop_pending_def list_ex_iff Bex_def in_set_conv_nth by (metis length_list_update nth_list_update)

lemma stop_pendingI: "i < length cs \<Longrightarrow> stopping c \<Longrightarrow> stop_pending (cs[i := c])"
  unfolding stop_pending_def list_ex_iff Bex_def in_set_conv_nth by (metis length_list_update nth_list_update_eq)

lemma not_alive_update: "i < length cs \<Longrightarrow> \<not> client_alive c \<Longrightarrow> \<not> list_all client_alive (cs[i := c])"
  unfolding list_all_length by (metis length_list_update nth_list_update_eq)

text \<open>What sending on a connected handler adds to what is on its way.\<close>

lemma send_arrivals:
  assumes "answers_exit net peer inc" and "handler_inv h" and "is_connected h"
    and "on_socket (ws_send_message net m) h = (r, h')"
  shows "\<exists>e. h' = h\<lparr>outside := e\<rparr> \<and> (\<forall>x. r = Throw x \<longrightarrow> \<not> client_alive (client_goes r)) \<and> \<not> is_abort r \<and>
     (end_in_sight inc h \<or> m = ''Exit'' \<and> is_ok r \<longrightarrow> end_in_sight inc h')"
proof -
  obtain c k where c: "m_websocket h = Some c" "wc_websocket c = Some k" and
    so: "on_socket (ws_send_message net m) h =
      (case ws_send_frame net k m (word_of_nat (length m)) frame_text (outside h) of
         (Inr _, e) \<Rightarrow> (Ok True, h\<lparr>outside := e\<rparr>)
       | (Inl x, e) \<Rightarrow> (Throw x, h\<lparr>outside := e\<rparr>))"
    by (rule send_on_socket [OF assms(2,3), of net m])
  obtain q e where f: "ws_send_frame net k m (word_of_nat (length m)) frame_text (outside h) = (q, e)"
    by (metis prod.collapse)
  with assms(1) obtain gs where gs: "inc k e = inc k (outside h) @ gs"
    "m = ''Exit'' \<and> (\<exists>n. q = Inr n) \<longrightarrow> list_ex finishing gs"
    unfolding answers_exit_def by meson
  have "end_in_sight inc (h\<lparr>outside := e\<rparr>)"
    if "end_in_sight inc h \<or> m = ''Exit'' \<and> (\<exists>n. q = Inr n)"
    using that c gs by (auto simp: end_in_sight_def)
  with so f assms(4) show ?thesis by (cases q) auto
qed

lemma client_step_woken:
  assumes "answers_exit net peer inc" and "handler_inv h" and "is_connected h" and "m_stop h'"
    and "client_step net free (h, cs ! i) (h', pc)" and "i < length cs"
    and "m_stop h \<Longrightarrow> stop_pending cs \<or> end_in_sight inc h"
  shows "stop_pending (cs[i := pc]) \<or> end_in_sight inc h' \<or> \<not> list_all client_alive (cs[i := pc])"
proof -
  have kept: "stop_pending (cs[i := pc]) \<or> end_in_sight inc h" if "m_stop h" and "\<not> stopping (cs ! i)"
    using that assms(6,7) stop_pending_update [of cs i pc] by blast
  from assms(5) show ?thesis
  proof (cases rule: client_step.cases)
    case (send m)
    with kept assms(4) show ?thesis by auto
  next
    case (send_locked m r)
    from send_arrivals [OF assms(1-3) send_locked(4)] obtain e where
      e: "h' = h\<lparr>outside := e\<rparr>" "end_in_sight inc h \<longrightarrow> end_in_sight inc h'" by blast
    with kept assms(4) send_locked(1) show ?thesis by auto
  next
    case stop
    then show ?thesis using stop_pendingI [OF assms(6), of pc] by simp
  next
    case stop_test
    then show ?thesis using stop_pendingI [OF assms(6), of pc] assms(3) by simp
  next
    case exit
    moreover have "m_websocket h \<noteq> None" using assms(3) by (auto simp: is_connected_def split: option.splits)
    ultimately show ?thesis using stop_pendingI [OF assms(6), of pc] by simp
  next
    case (call r)
    from send_arrivals [OF assms(1-3) call(3)] have
      "is_ok r \<longrightarrow> end_in_sight inc h'" "\<forall>x. r = Throw x \<longrightarrow> \<not> client_alive (client_goes r)" "\<not> is_abort r" by blast+
    with call(2) show ?thesis using not_alive_update [OF assms(6), of pc] by (cases r) simp_all
  next
    case dangling
    then show ?thesis using not_alive_update [OF assms(6), of pc] by simp
  qed
qed

lemma main_step_woken:
  assumes "answers_exit net peer inc" and "main_safe h pc" and "main_step net get_params (h, pc) (h', pc')"
    and "m_stop h'" and "to_receive h' pc'"
    and "m_stop h \<Longrightarrow> to_receive h pc \<Longrightarrow> stop_pending cs \<or> end_in_sight inc h"
  shows "stop_pending (left_behind h pc cs) \<or> end_in_sight inc h'"
proof -
  have "pc \<noteq> M_start"
  proof
    assume "pc = M_start"
    with assms(3) have "pc' = M_check" by (auto elim: main_stepE)
    with assms(5) show False by (simp add: to_receive_def)
  qed
  from main_step_to_receive [OF assms(2-5) this] have
    old: "to_receive h pc" "m_stop h" "m_websocket h' = m_websocket h" "\<not> destroys h pc"
    and how: "h' = h \<or> (\<exists>i b c. on_socket (receive_round net i b) h = (Ok (c, False), h'))" by blast+
  have "end_in_sight inc h'" if "end_in_sight inc h"
    using how
  proof
    assume "\<exists>i b c. on_socket (receive_round net i b) h = (Ok (c, False), h')"
    then obtain i b d where os: "on_socket (receive_round net i b) h = (Ok (d, False), h')" by blast
    from that obtain c k where c: "m_websocket h = Some c" "wc_websocket c = Some k"
      "list_ex finishing (inc k (outside h))" by (auto simp: end_in_sight_def)
    obtain r c' e' where rr: "receive_round net i b (c, outside h) = (r, (c', e'))" by (metis prod.collapse)
    from on_socket_Some [of h c "receive_round net i b", OF c(1) rr] os
    have r: "r = Ok (d, False)" "outside h' = e'" by auto
    from assms(1) have "delivers net k (inc k)" by (simp add: answers_exit_def)
    from round_keeps_end [of net k inc, OF this c(2) rr [unfolded r(1)] c(3)] r(2) old(3) c show ?thesis
      by (simp add: end_in_sight_def)
  qed (simp add: that)
  with assms(6) [OF old(2,1)] old(4) show ?thesis by (auto simp: left_behind_def)
qed

lemma thread_step_woken:
  assumes "answers_exit net peer inc" and "main_safe (handler s) (main s)" and "woken inc s"
    and "thread_step net get_params peer s t"
  shows "woken inc t"
  using assms(4)
proof (cases rule: thread_step.cases)
  case (main_turn h pc)
  with main_step_woken [OF assms(1,2) main_turn(2)] assms(3) show ?thesis by (auto simp: woken_def)
next
  case (client_turn i h pc)
  obtain e b where h: "h = (handler s)\<lparr>m_stop := b, outside := e\<rparr>"
    using client_step_frame [OF client_turn(3)] by blast
  then have same: "to_receive h (main s) = to_receive (handler s) (main s)"
    by (simp add: to_receive_def is_connected_def)
  have "stop_pending ((clients s)[i := pc]) \<or> end_in_sight inc h \<or> \<not> list_all client_alive ((clients s)[i := pc])"
    if "m_stop h" and "to_receive h (main s)"
  proof (rule client_step_woken [OF assms(1) _ _ that(1) client_turn(3,2)])
    show "handler_inv (handler s)" using assms(2) by (simp add: main_safe_def)
    show "is_connected (handler s)" using that(2) same by (simp add: to_receive_def)
    show "stop_pending (clients s) \<or> end_in_sight inc (handler s)" if "m_stop (handler s)"
      using assms(3) that \<open>to_receive h (main s)\<close> same client_turn(5) by (auto simp: woken_def)
  qed
  with client_turn(1) show ?thesis by (simp add: woken_def)
next
  case (world_turn e)
  from assms(1) world_turn(2) have "\<exists>gs. inc k e = inc k (outside (handler s)) @ gs" for k
    unfolding answers_exit_def by blast
  then have "end_in_sight inc ((handler s)\<lparr>outside := e\<rparr>)" if "end_in_sight inc (handler s)"
    using end_in_sight_grows [OF that, of e "m_stop (handler s)"] by simp
  with world_turn(1) assms(3) show ?thesis by (auto simp: woken_def to_receive_def)
qed

lemma reaches_woken:
  assumes "answers_exit net peer inc" and "reaches net get_params peer (start_threads n h) t" and "handler_inv h"
  shows "woken inc t"
proof -
  have "main_safe (handler t) (main t) \<and> woken inc t"
  proof (rule reaches_invariant [OF assms(2)])
    show "main_safe (handler (start_threads n h)) (main (start_threads n h)) \<and> woken inc (start_threads n h)"
      by (simp add: start_threads_def main_safe_def woken_def to_receive_def assms(3))
  next
    fix t u
    assume "main_safe (handler t) (main t) \<and> woken inc t" and "thread_step net get_params peer t u"
    then show "main_safe (handler u) (main u) \<and> woken inc u"
      using main_invariantD [OF main_safe_invariant] thread_step_woken [OF assms(1)] by blast
  qed
  then show ?thesis ..
qed

text \<open>A call that waits has nothing on its way.\<close>

lemma waiting_not_in_sight:
  assumes "answers_exit net peer inc" and "waits net (h, pc)"
  shows "\<not> end_in_sight inc h"
proof -
  from assms(2) obtain i b where "pc = M_frames i b" "frame_waits net i h" by (cases pc) auto
  with assms(1) show ?thesis
    by (auto simp: frame_waits_def end_in_sight_def answers_exit_def split: option.splits)
qed

subsection \<open>A League client that answers\<close>

definition answering_ws :: "(incoming list, unit, unit) poco_ws" where
  "answering_ws = scripted_ws\<lparr>ws_ready := (\<lambda>k e. e \<noteq> []),
     ws_send_frame := (\<lambda>k m l f e. (Inr l, e @ [Frame ''[]'' frame_text]))\<rparr>"

lemma answering_answers: "answers_exit answering_ws arrivals (\<lambda>k. map clip)"
proof -
  have "delivers answering_ws k (map clip)" for k
    using scripted_delivers [of k] by (simp add: delivers_def answering_ws_def)
  moreover have "frame_text AND frame_flag_fin \<noteq> 0" by (simp add: frame_text_def frame_flag_fin_def)
  ultimately show ?thesis
    by (auto simp: answers_exit_def answering_ws_def arrivals_def max_frame_size_def)
qed

text \<open>A thread stops the handler of the witnesses while \<open>run\<close> waits for a frame.\<close>

definition quiet :: "(incoming list, unit, unit, ws_event list) ws_handler" where
  "quiet = met\<lparr>outside := []\<rparr>"

lemma quiet_reached:
  "reaches answering_ws found arrivals (start_threads 1 (fresh\<lparr>outside := []\<rparr>))
     \<lparr>handler = quiet, main = M_frames 0 [], clients = [C_idle]\<rparr>"
proof -
  let ?h = "fresh\<lparr>outside := []\<rparr>"
  let ?h1 = "?h\<lparr>m_websocket := Some open_client\<rparr>"
  let ?s = "start_threads 1 ?h"
  have i: "handler_inv (?h\<lparr>m_stop := False\<rparr>)" "\<not> is_connected (?h\<lparr>m_stop := False\<rparr>)"
    by (simp_all add: fresh_simps handler_inv_def is_connected_def)
  have "reconnect answering_ws found (?h\<lparr>m_stop := False\<rparr>) = (Ok (), ?h1)"
    unfolding reconnect_disconnected [OF i]
    by (simp add: found_def fresh_simps answering_ws_def scripted_ws_def on_socket_def
        ws_start_def lcu_client_def andthen_def try_catch_def on_env_def lift_ext_def set_websocket_def
        set_connected_def open_client_def)
  moreover have "notify_connection_state_changed True ?h1 = (Ok (), quiet)"
    by (simp add: notify_changed on_user_apply fresh_simps met_def quiet_def recorded_def open_client_def)
  moreover have "handler_inv ?h" "\<not> is_connected ?h" "\<not> m_is_state_connected ?h"
    by (simp_all add: fresh_simps handler_inv_def is_connected_def)
  ultimately have "reaches answering_ws found arrivals ?s \<lparr>handler = quiet, main = M_check, clients = replicate 1 C_idle\<rparr>"
    by (intro connecting_run)
  then have "reaches answering_ws found arrivals ?s \<lparr>handler = quiet, main = M_check, clients = [C_idle]\<rparr>" by simp
  moreover have "list_all client_alive [C_idle]" by simp
  moreover have "left_behind quiet pc [C_idle] = [C_idle]" for pc by (rule left_behind_id) simp
  ultimately have next1: "reaches answering_ws found arrivals ?s \<lparr>handler = quiet, main = M_test, clients = [C_idle]\<rparr>"
    using reaches_next [of answering_ws found arrivals ?s quiet M_check "[C_idle]" quiet M_test]
    by (simp add: quiet_def met_facts)
  have q: "is_connected quiet" "enter_receive quiet = M_frames 0 []"
    using met_facts(2) by (simp_all add: quiet_def enter_receive_def met_def)
  have behind: "left_behind quiet pc [C_idle] = [C_idle]" for pc by (rule left_behind_id) simp
  from reaches_next [OF next1, of quiet M_receive] q(1) behind
  have "reaches answering_ws found arrivals ?s \<lparr>handler = quiet, main = M_receive, clients = [C_idle]\<rparr>" by simp
  from reaches_next [OF this, of quiet "M_frames 0 []"] q(2) behind show ?thesis by simp
qed

subsection \<open>Properties\<close>

text \<open>C12. A stop request is heeded whatever the other threads and the world do: from any reachable state in which
  it has been made after \<open>run\<close> was entered, the thread in \<open>run\<close> takes at most 262 more steps until \<open>run\<close>
  returns (the frames of one message among them). Before that it can always go on, unless it waits for a
  frame or has ended the program for an exception; and when \<open>run\<close> returns the connection is gone.\<close>

theorem stop_is_heeded:
  assumes "handler_inv h" and "reaches net get_params peer (start_threads n h) s"
    and "m_stop (handler s)" and "main s \<noteq> M_start" and "main_turns net get_params peer s k t"
  shows "k \<le> 262 \<and> (if main t = M_done then m_websocket (handler t) = None
     else (\<exists>x. main t = M_ended (Terminate x)) \<or> waits net (handler t, main t) \<or>
       (\<exists>u. main_step net get_params (handler t, main t) u))"
proof -
  note turns = stopping_turns [OF assms(5) reaches_safe [OF assms(2,1)] assms(3,4)]
  moreover have "steps_left (main s) \<le> 262" using assms(4) by (cases "main s") simp_all
  moreover have "left_alone (handler t) (main t)"
    by (rule reaches_left [OF reaches_trans [OF main_turns_reaches [OF assms(5)] assms(2)]])
  ultimately have "k \<le> 262" and "main_safe (handler t) (main t)" and "left_alone (handler t) (main t)" by simp_all
  with main_goes_on [of "handler t" "main t" net get_params] show ?thesis by simp
qed

text \<open>In the witness a thread requests the stop while \<open>run\<close> waits for a frame.\<close>

theorem stop_is_heeded_witness:
  "\<exists>s. reaches answering_ws found arrivals (start_threads 1 (fresh\<lparr>outside := []\<rparr>)) s \<and> m_stop (handler s) \<and>
     waits answering_ws (handler s, main s) \<and> main_turns answering_ws found arrivals s 0 s \<and> (0 :: nat) \<le> 262"
proof -
  let ?s = "\<lparr>handler = quiet\<lparr>m_stop := True\<rparr>, main = M_frames 0 [], clients = [C_stop]\<rparr>"
  have s: "reaches answering_ws found arrivals (start_threads 1 (fresh\<lparr>outside := []\<rparr>)) ?s"
    using client_moves [OF quiet_reached, of 0 "quiet\<lparr>m_stop := True\<rparr>" C_stop]
      client_step.stop [of answering_ws True quiet] by simp
  moreover have "waits answering_ws (handler ?s, main ?s)"
    by (simp add: frame_waits_def quiet_def met_def answering_ws_def max_frames_per_message_def)
  moreover note stop_is_heeded [OF _ s _ _ no_turn]
  ultimately show ?thesis by (intro exI [of _ ?s]) (simp add: no_turn fresh_inv)
qed

text \<open>C14. \<open>stop\<close> gets \<open>run\<close> out of \<open>receive_message\<close>: if the League client answers \<open>Exit\<close>, then in every
  reachable state in which a stop has been requested after \<open>run\<close> was entered and no call of \<open>stop\<close> is still
  to send its \<open>Exit\<close>, the thread in \<open>run\<close> does not wait: it has returned, or can go on.\<close>

theorem stop_ends_the_wait:
  assumes "answers_exit net peer inc" and "handler_inv h" and "reaches net get_params peer (start_threads n h) t"
    and "m_stop (handler t)" and "list_all client_alive (clients t)" and "\<not> stop_pending (clients t)"
  shows "main t = M_done \<or> (\<exists>x. main t = M_ended (Terminate x)) \<or>
     (\<exists>u. main_step net get_params (handler t, main t) u)"
proof -
  note safe = reaches_safe [OF assms(3,2)]
  have "\<not> waits net (handler t, main t)"
  proof
    assume w: "waits net (handler t, main t)"
    then have "receiving (main t)" by (cases "main t") simp_all
    with safe have "to_receive (handler t) (main t)" by (simp add: main_safe_def to_receive_def)
    with reaches_woken [OF assms(1,3,2)] assms(4-6) have "end_in_sight inc (handler t)" by (simp add: woken_def)
    with waiting_not_in_sight [OF assms(1) w] show False ..
  qed
  with main_goes_on [OF safe reaches_left [OF assms(3)], of net get_params] show ?thesis by blast
qed

text \<open>The witness: the thread in \<open>run\<close> waits, a thread calls \<open>stop\<close>, and when the call has returned the wait is over.\<close>

theorem stop_ends_the_wait_witness:
  "\<exists>t u. reaches answering_ws found arrivals (start_threads 1 (fresh\<lparr>outside := []\<rparr>)) t \<and> m_stop (handler t) \<and>
     clients t = [C_idle] \<and> main t = M_frames 0 [] \<and> main_step answering_ws found (handler t, main t) u"
proof -
  let ?h = "quiet\<lparr>m_stop := True\<rparr>" and ?s = "start_threads 1 (fresh\<lparr>outside := []\<rparr>)"
  let ?h' = "?h\<lparr>outside := [Frame ''[]'' frame_text]\<rparr>"
  let ?t = "\<lparr>handler = ?h', main = M_frames 0 [], clients = [C_idle]\<rparr>"
  have q: "is_connected ?h" using met_facts(2) by (simp add: quiet_def is_connected_def)
  have c1: "reaches answering_ws found arrivals ?s \<lparr>handler = ?h, main = M_frames 0 [], clients = [C_stop]\<rparr>"
    using client_moves [OF quiet_reached, of 0 ?h C_stop] client_step.stop [of answering_ws True quiet] by simp
  have c2: "reaches answering_ws found arrivals ?s \<lparr>handler = ?h, main = M_frames 0 [], clients = [C_exit]\<rparr>"
    using client_moves [OF c1, of 0 ?h C_exit] stop_test [of True answering_ws ?h] q by simp
  have "client_step answering_ws True (?h, C_exit) (?h, C_call)"
    using exit [of answering_ws True ?h] by (simp add: quiet_def met_def)
  then have c3: "reaches answering_ws found arrivals ?s \<lparr>handler = ?h, main = M_frames 0 [], clients = [C_call]\<rparr>"
    using client_moves [OF c2, of 0 ?h C_call] by simp
  have "on_socket (ws_send_message answering_ws ''Exit'') ?h = (Ok True, ?h')"
    by (simp add: on_socket_def quiet_def met_def ws_send_message_def andthen_def on_env_def lift_ext_def
        answering_ws_def fresh_simps)
  from client_moves [OF c3, of 0 ?h' C_idle] call [OF this]
  have t: "reaches answering_ws found arrivals ?s ?t" by simp
  have "handler_inv (fresh\<lparr>outside := []\<rparr>)" using fresh_inv by simp
  from stop_ends_the_wait [OF answering_answers this t] have "\<exists>u. main_step answering_ws found (handler ?t, main ?t) u"
    by (simp add: stop_pending_def)
  with t show ?thesis by (intro exI [of _ ?t]) auto
qed

end
