(* ===== verification/Lcu_Websocket_Destroy.thy ===== *)
theory Lcu_Websocket_Destroy
  imports Lcu_Websocket_Stop
begin

text \<open>
  The end of an \<open>Lcu_websocket_handler\<close>: \<open>~Lcu_websocket_handler\<close> calls \<open>stop\<close>, and when the call has
  returned the members are destroyed. One of the calling threads of \<open>Lcu_Websocket_Threads\<close> owns the
  object and runs the destructor, while the others and the thread in \<open>run\<close> go on.
\<close>

subsection \<open>The lifetime of the handler\<close>

datatype lifetime =
    Alive
  | Destructing nat        \<comment> \<open>this thread is in \<open>stop\<close>, called by the destructor\<close>
  | Destroyed              \<comment> \<open>the destructor has returned\<close>
  | Used_after             \<comment> \<open>and a thread has gone on with the object\<close>

record ('e, 'n, 'k, 'w) owned =
  running :: "('e, 'n, 'k, 'w) threads"
  lifetime :: lifetime

text \<open>The owner's thread makes no call of its own in the destructor, and goes on when \<open>stop\<close> has returned.\<close>

definition owner_silent :: "lifetime \<Rightarrow> ('e, 'n, 'k, 'w) threads \<Rightarrow> ('e, 'n, 'k, 'w) threads \<Rightarrow> bool" where
  "owner_silent l s t \<longleftrightarrow> (\<forall>i. l = Destructing i \<and> clients s ! i = C_idle \<longrightarrow> clients t ! i = C_idle)"

text \<open>A thread that is inside a member function.\<close>

fun main_inside :: "main_pc \<Rightarrow> bool" where
  "main_inside M_done = False"
| "main_inside (M_ended b) = False"
| "main_inside _ = True"

fun client_inside :: "client_pc \<Rightarrow> bool" where
  "client_inside C_idle = False"
| "client_inside (C_ended b) = False"
| "client_inside _ = True"

definition thread_inside :: "('e, 'n, 'k, 'w) threads \<Rightarrow> bool" where
  "thread_inside s \<longleftrightarrow> main_inside (main s) \<or> list_ex client_inside (clients s)"

inductive owned_step ::
  "('e, 'n, 'k) poco_ws \<Rightarrow> ('e, lcu_parameters) ext \<Rightarrow> ('e \<Rightarrow> 'e \<Rightarrow> bool) \<Rightarrow>
     ('e, 'n, 'k, 'w) owned \<Rightarrow> ('e, 'n, 'k, 'w) owned \<Rightarrow> bool"
  for net get_params peer where
  beside: "lifetime s = Alive \<or> lifetime s = Destructing i \<Longrightarrow> thread_step net get_params peer (running s) t \<Longrightarrow>
    owner_silent (lifetime s) (running s) t \<Longrightarrow> owned_step net get_params peer s (s\<lparr>running := t\<rparr>)"
| destructor: "lifetime s = Alive \<Longrightarrow> i < length (clients (running s)) \<Longrightarrow> clients (running s) ! i = C_idle \<Longrightarrow>
    main_alive (main (running s)) \<Longrightarrow> list_all client_alive (clients (running s)) \<Longrightarrow>
    owned_step net get_params peer s
      (s\<lparr>running := (running s)\<lparr>handler := (handler (running s))\<lparr>m_stop := True\<rparr>,
           clients := (clients (running s))[i := C_stop]\<rparr>, lifetime := Destructing i\<rparr>)"
| members: "lifetime s = Destructing i \<Longrightarrow> clients (running s) ! i = C_idle \<Longrightarrow>
    reset_websocket net (handler (running s)) = (Ok (), h) \<Longrightarrow>
    main_alive (main (running s)) \<Longrightarrow> list_all client_alive (clients (running s)) \<Longrightarrow>
    owned_step net get_params peer s (s\<lparr>running := (running s)\<lparr>handler := h\<rparr>, lifetime := Destroyed\<rparr>)"
| used: "lifetime s = Destroyed \<Longrightarrow> thread_inside (running s) \<Longrightarrow>
    owned_step net get_params peer s (s\<lparr>lifetime := Used_after\<rparr>)"

inductive owned_reaches ::
  "('e, 'n, 'k) poco_ws \<Rightarrow> ('e, lcu_parameters) ext \<Rightarrow> ('e \<Rightarrow> 'e \<Rightarrow> bool) \<Rightarrow>
     ('e, 'n, 'k, 'w) owned \<Rightarrow> ('e, 'n, 'k, 'w) owned \<Rightarrow> bool"
  for net get_params peer s where
  born: "owned_reaches net get_params peer s s"
| later: "owned_reaches net get_params peer s t \<Longrightarrow> owned_step net get_params peer t u \<Longrightarrow>
    owned_reaches net get_params peer s u"

definition owned_threads :: "('e, 'n, 'k, 'w) threads \<Rightarrow> ('e, 'n, 'k, 'w) owned" where
  "owned_threads s = \<lparr>running = s, lifetime = Alive\<rparr>"

subsection \<open>The runs\<close>

lemma reaches_owned:
  "reaches net get_params peer s t \<Longrightarrow>
     owned_reaches net get_params peer (owned_threads s) (owned_threads t)"
proof (induction rule: reaches.induct)
  case here
  show ?case by (rule born)
next
  case (further t u)
  from later [OF further.IH beside [where t = u and i = 0]] further(2) show ?case
    by (simp add: owner_silent_def owned_threads_def)
qed

text \<open>A step of the owner in \<open>stop\<close>.\<close>

lemma owner_moves:
  assumes "owned_reaches net get_params peer s
      \<lparr>running = \<lparr>handler = h, main = pc, clients = cs\<rparr>, lifetime = Destructing i\<rparr>"
    and "client_step net (\<not> locked pc) (h, cs ! i) (h', c)" and "cs ! i \<noteq> C_idle"
    and "main_alive pc" and "list_all client_alive cs" and "i < length cs"
  shows "owned_reaches net get_params peer s
      \<lparr>running = \<lparr>handler = h', main = pc, clients = cs[i := c]\<rparr>, lifetime = Destructing i\<rparr>"
proof -
  let ?t = "\<lparr>handler = h, main = pc, clients = cs\<rparr>" and ?u = "\<lparr>handler = h', main = pc, clients = cs[i := c]\<rparr>"
  have "thread_step net get_params peer ?t ?u"
    using client_turn [of i ?t net h' c get_params peer] assms(2,4-6) by simp
  then show ?thesis
    using later [OF assms(1) beside [where t = ?u and i = i]] assms(3) by (simp add: owner_silent_def)
qed

text \<open>When nothing that POCO sends fails, the destructor gets to its end while the thread in \<open>run\<close> stays where it is.\<close>

definition accepts_frames :: "('e, 'n, 'k) poco_ws \<Rightarrow> bool" where
  "accepts_frames net \<longleftrightarrow> (\<forall>k m l f e. \<exists>n. fst (ws_send_frame net k m l f e) = Inr n)"

lemma exit_is_sent:
  assumes "accepts_frames net" and "handler_inv h" and "is_connected h"
  shows "\<exists>e. on_socket (ws_send_message net ''Exit'') h = (Ok True, h\<lparr>outside := e\<rparr>)"
proof -
  obtain k where so: "on_socket (ws_send_message net ''Exit'') h =
      (case ws_send_frame net k ''Exit'' (word_of_nat (length ''Exit'')) frame_text (outside h) of
         (Inr _, e) \<Rightarrow> (Ok True, h\<lparr>outside := e\<rparr>)
       | (Inl x, e) \<Rightarrow> (Throw x, h\<lparr>outside := e\<rparr>))"
    by (rule send_on_socket [OF assms(2,3), of net "''Exit''"])
  obtain n e where "ws_send_frame net k ''Exit'' (word_of_nat (length ''Exit'')) frame_text (outside h) = (Inr n, e)"
    using assms(1) unfolding accepts_frames_def by (metis prod.collapse)
  with so show ?thesis by auto
qed

lemma destructor_stops:
  assumes "reaches net get_params peer s0 \<lparr>handler = h, main = pc, clients = cs\<rparr>"
    and "main_alive pc" and "\<not> locked pc" and "list_all client_alive cs" and "i < length cs" and "cs ! i = C_idle"
    and "handler_inv h" and "accepts_frames net"
  shows "\<exists>g. handler_inv g \<and> owned_reaches net get_params peer (owned_threads s0)
      \<lparr>running = \<lparr>handler = g, main = pc, clients = cs\<rparr>, lifetime = Destructing i\<rparr>"
proof -
  let ?s = "owned_threads s0" and ?h = "h\<lparr>m_stop := True\<rparr>"
  let ?in = "\<lambda>g c. owned_reaches net get_params peer ?s
      \<lparr>running = \<lparr>handler = g, main = pc, clients = cs[i := c]\<rparr>, lifetime = Destructing i\<rparr>"
  have alive: "list_all client_alive (cs[i := c])" if "client_alive c" for c
    using clients_alive_update [OF assms(4) that] .
  have moves: "?in g' c'" if "?in g c" and "client_step net True (g, c) (g', c')" and "c \<noteq> C_idle" and "client_alive c"
    for g c g' c'
    using owner_moves [OF that(1), of g' c'] that(2,3) alive [OF that(4)] assms(2,3,5) by simp
  have i: "handler_inv ?h" using assms(7) by (simp add: handler_inv_def)
  have d: "?in ?h C_stop"
    using later [OF reaches_owned [OF assms(1)] destructor [where i = i]] assms(2,4-6)
    by (simp add: owned_threads_def)
  from moves [OF this stop_test] have t: "?in ?h (if is_connected ?h then C_exit else C_idle)" by simp
  have "\<exists>g. handler_inv g \<and> ?in g C_idle"
  proof (cases "is_connected ?h")
    case True
    then have ne: "m_websocket ?h \<noteq> None" by (auto simp: is_connected_def split: option.splits)
    from t True have "?in ?h C_exit" by simp
    from moves [OF this exit] ne have c: "?in ?h C_call" by auto
    from exit_is_sent [OF assms(8) i True] obtain e where
      "on_socket (ws_send_message net ''Exit'') ?h = (Ok True, ?h\<lparr>outside := e\<rparr>)" by blast
    from moves [OF c call [OF this]] have "?in (?h\<lparr>outside := e\<rparr>) C_idle" by simp
    moreover have "handler_inv (?h\<lparr>outside := e\<rparr>)" using i by (simp add: handler_inv_def)
    ultimately show ?thesis by blast
  qed (use t i in auto)
  moreover have "cs[i := C_idle] = cs" using assms(6) by (metis list_update_id)
  ultimately show ?thesis by simp
qed

text \<open>A thread in \<open>run\<close> that holds the mutex goes on to its release, and is inside \<open>run\<close> then too.\<close>

lemma reaches_unlocked:
  assumes "reaches net get_params peer s \<lparr>handler = h, main = pc, clients = cs\<rparr>"
    and "main_safe h pc" and "main_inside pc" and "list_all client_alive cs"
  shows "\<exists>h' pc'. reaches net get_params peer s \<lparr>handler = h', main = pc', clients = cs\<rparr> \<and>
     main_safe h' pc' \<and> main_inside pc' \<and> \<not> locked pc'"
  using assms
proof (induction "block_left pc" arbitrary: h pc rule: less_induct)
  case less
  show ?case
  proof (cases "locked pc")
    case True
    then have alive: "main_alive pc" "\<not> waits net (h, pc)" by (cases pc; simp)+
    obtain h' pc' where n: "main_next net get_params (h, pc) = (h', pc')" by (metis prod.collapse)
    with main_step_next [OF alive, of get_params] have step: "main_step net get_params (h, pc) (h', pc')" by simp
    have behind: "left_behind h pc cs = cs" using True by (cases pc) (simp_all add: left_behind_def destroys_def)
    have "reconnecting pc" using True by (cases pc) simp_all
    note after = reconnect_step [OF less.prems(2) this step]
    then have inside: "main_inside pc'" by (cases pc') auto
    show ?thesis
      by (rule less.hyps [OF _ _ _ inside less.prems(4)])
         (use after main_moves [OF less.prems(1) step less.prems(4)] behind in auto)
  qed (use less.prems in blast)
qed

lemma main_inside_alive: "main_inside pc \<Longrightarrow> main_alive pc"
  by (cases pc) simp_all

lemma destructor_race:
  assumes "reaches net get_params peer s0 \<lparr>handler = h, main = pc, clients = cs\<rparr>"
    and "main_safe h pc" and "main_inside pc" and "list_all client_alive cs" and "i < length cs" and "cs ! i = C_idle"
    and "accepts_frames net" and "shutdown_returns net"
  shows "\<exists>s. owned_reaches net get_params peer (owned_threads s0) s \<and> lifetime s = Destroyed \<and> main_inside (main (running s))"
proof -
  from reaches_unlocked [OF assms(1-4)] obtain h1 pc1 where
    r: "reaches net get_params peer s0 \<lparr>handler = h1, main = pc1, clients = cs\<rparr>"
    and pc1: "main_safe h1 pc1" "main_inside pc1" "\<not> locked pc1" by blast
  from pc1(1) have "handler_inv h1" by (simp add: main_safe_def)
  from destructor_stops [OF r main_inside_alive [OF pc1(2)] pc1(3) assms(4-6) this assms(7)] obtain g where
    g: "handler_inv g" and d: "owned_reaches net get_params peer (owned_threads s0)
      \<lparr>running = \<lparr>handler = g, main = pc1, clients = cs\<rparr>, lifetime = Destructing i\<rparr>" by blast
  from reset_returns [OF g assms(8)] obtain h2 where "reset_websocket net g = (Ok (), h2)" by blast
  with later [OF d members [where i = i and h = h2]] assms(4,6) main_inside_alive [OF pc1(2)] have
    "owned_reaches net get_params peer (owned_threads s0)
      \<lparr>running = \<lparr>handler = h2, main = pc1, clients = cs\<rparr>, lifetime = Destroyed\<rparr>" by simp
  with pc1(2) show ?thesis by (intro exI conjI) (assumption, simp_all)
qed

subsection \<open>Properties\<close>

text \<open>C31. The destructor does not wait for \<open>run\<close>. From every reachable state with the thread in \<open>run\<close> anywhere
  inside it, waiting or not, and another thread in no call, a run of the program goes on in which that other thread
  destroys the handler, \<open>stop\<close> included, and returns from the destructor while the thread in \<open>run\<close> is still
  inside it, so that it goes on with the destroyed object. Once \<open>run\<close> has returned the destructor only sets
  \<open>m_stop\<close>: it sends nothing and there is no client to close.\<close>

theorem destructor_does_not_wait:
  assumes "handler_inv h" and "reaches net get_params peer (start_threads n h) t"
    and "main_alive (main t)" and "list_all client_alive (clients t)" and "i < length (clients t)"
    and "clients t ! i = C_idle" and "accepts_frames net" and "shutdown_returns net"
  shows "if main t = M_done then destroy_handler net (handler t) = (Ok (), (handler t)\<lparr>m_stop := True\<rparr>)
     else \<exists>s u. owned_reaches net get_params peer (owned_threads t) s \<and> lifetime s = Destroyed \<and>
       main_inside (main (running s)) \<and> owned_step net get_params peer s u \<and> lifetime u = Used_after"
proof (cases "main t = M_done")
  case True
  with reaches_left [OF assms(2)] have "m_websocket (handler t) = None" by (simp add: left_alone_def)
  with True show ?thesis
    by (simp add: destroy_handler_def stop_def is_connected_def reset_websocket_def andthen_def no_except_def)
next
  case False
  with assms(3) have inside: "main_inside (main t)" by (cases "main t") simp_all
  have "reaches net get_params peer t \<lparr>handler = handler t, main = main t, clients = clients t\<rparr>"
    using here [of net get_params peer t] by (cases t) simp
  from destructor_race [OF this reaches_safe [OF assms(2,1)] inside assms(4-8)] obtain s where
    s: "owned_reaches net get_params peer (owned_threads t) s" "lifetime s = Destroyed" "main_inside (main (running s))"
    by blast
  from used [OF s(2), of net get_params peer] s(3) have
    "owned_step net get_params peer s (s\<lparr>lifetime := Used_after\<rparr>)" by (simp add: thread_inside_def)
  with s have "\<exists>s u. owned_reaches net get_params peer (owned_threads t) s \<and> lifetime s = Destroyed \<and>
      main_inside (main (running s)) \<and> owned_step net get_params peer s u \<and> lifetime u = Used_after"
    by (intro exI [of _ s] exI [of _ "s\<lparr>lifetime := Used_after\<rparr>"]) simp
  with False show ?thesis by simp
qed

text \<open>The witness: \<open>run\<close> waits for a frame.\<close>

theorem destructor_does_not_wait_witness:
  "\<exists>t s. reaches answering_ws found arrivals (start_threads 1 (fresh\<lparr>outside := []\<rparr>)) t \<and> main t = M_frames 0 [] \<and>
     owned_reaches answering_ws found arrivals (owned_threads t) s \<and> lifetime s = Destroyed \<and>
     main_inside (main (running s))"
proof -
  have "accepts_frames answering_ws" by (simp add: accepts_frames_def answering_ws_def)
  moreover have "shutdown_returns answering_ws"
    using scripted_shutdown by (simp add: shutdown_returns_def answering_ws_def)
  moreover have "handler_inv (fresh\<lparr>outside := []\<rparr>)" using fresh_inv by simp
  ultimately show ?thesis
    using destructor_does_not_wait [OF _ quiet_reached, of 0] quiet_reached
    by (intro exI [of _ "\<lparr>handler = quiet, main = M_frames 0 [], clients = [C_idle]\<rparr>"]) auto
qed

end
