(* ===== verification/Lcu_Websocket_Callbacks.thy ===== *)
theory Lcu_Websocket_Callbacks
  imports Lcu_Websocket_Threads
begin

text \<open>
  Callbacks that call the handler they are registered with, as programs do: \<open>subscribe\<close> in the connection
  callback, \<open>stop\<close> in the message callback. The thread in \<open>run\<close> is then itself inside \<open>send_message\<close> or
  \<open>stop\<close>, at one of its own control points, while the other threads and the world go on. No block under
  \<open>m_socket_mutex\<close> runs a callback, so these calls can take the mutex.
\<close>

subsection \<open>Where a callback runs\<close>

fun runs_callback :: "('e, 'n, 'k, 'w) ws_handler \<Rightarrow> main_pc \<Rightarrow> bool" where
  "runs_callback h M_leave \<longleftrightarrow> m_is_state_connected h \<and> m_on_disconnected h \<noteq> None"
| "runs_callback h M_lost \<longleftrightarrow> m_is_state_connected h \<and> m_on_disconnected h \<noteq> None"
| "runs_callback h M_found \<longleftrightarrow> \<not> m_is_state_connected h \<and> m_on_connected h \<noteq> None"
| "runs_callback h (M_deliver m) \<longleftrightarrow> m_on_message_received h \<noteq> None"
| "runs_callback h _ \<longleftrightarrow> False"

text \<open>The thread in \<open>run\<close> does not hold the mutex then.\<close>

lemma callback_unlocked: "runs_callback h pc \<Longrightarrow> (\<not> locked pc) = True"
  by (cases pc) simp_all

text \<open>The threads, with what the callback that the thread in \<open>run\<close> is in is doing: \<open>C_idle\<close> when it calls nothing.\<close>

record ('e, 'n, 'k, 'w) calling =
  outer :: "('e, 'n, 'k, 'w) threads"
  inner :: client_pc

definition calling_alive :: "('e, 'n, 'k, 'w) calling \<Rightarrow> bool" where
  "calling_alive s \<longleftrightarrow> main_alive (main (outer s)) \<and> list_all client_alive (clients (outer s)) \<and> client_alive (inner s)"

text \<open>A callback makes any number of calls before it returns; while it is in one, the thread in \<open>run\<close> does nothing else.\<close>

inductive calling_step ::
  "('e, 'n, 'k) poco_ws \<Rightarrow> ('e, lcu_parameters) ext \<Rightarrow> ('e \<Rightarrow> 'e \<Rightarrow> bool) \<Rightarrow>
     ('e, 'n, 'k, 'w) calling \<Rightarrow> ('e, 'n, 'k, 'w) calling \<Rightarrow> bool"
  for net get_params peer where
  goes_on: "inner s = C_idle \<Longrightarrow> thread_step net get_params peer (outer s) t \<Longrightarrow>
    calling_step net get_params peer s (s\<lparr>outer := t\<rparr>)"
| calls: "runs_callback (handler (outer s)) (main (outer s)) \<Longrightarrow>
    client_step net (\<not> locked (main (outer s))) (handler (outer s), inner s) (h, pc) \<Longrightarrow> calling_alive s \<Longrightarrow>
    calling_step net get_params peer s (s\<lparr>outer := (outer s)\<lparr>handler := h\<rparr>, inner := pc\<rparr>)"
| client_beside: "i < length (clients (outer s)) \<Longrightarrow>
    client_step net (\<not> locked (main (outer s))) (handler (outer s), clients (outer s) ! i) (h, pc) \<Longrightarrow> calling_alive s \<Longrightarrow>
    calling_step net get_params peer s
      (s\<lparr>outer := (outer s)\<lparr>handler := h, clients := (clients (outer s))[i := pc]\<rparr>\<rparr>)"
| world_beside: "peer (outside (handler (outer s))) e \<Longrightarrow> calling_alive s \<Longrightarrow>
    calling_step net get_params peer s (s\<lparr>outer := (outer s)\<lparr>handler := (handler (outer s))\<lparr>outside := e\<rparr>\<rparr>\<rparr>)"

inductive calling_reaches ::
  "('e, 'n, 'k) poco_ws \<Rightarrow> ('e, lcu_parameters) ext \<Rightarrow> ('e \<Rightarrow> 'e \<Rightarrow> bool) \<Rightarrow>
     ('e, 'n, 'k, 'w) calling \<Rightarrow> ('e, 'n, 'k, 'w) calling \<Rightarrow> bool"
  for net get_params peer s where
  at_start: "calling_reaches net get_params peer s s"
| one_more: "calling_reaches net get_params peer s t \<Longrightarrow> calling_step net get_params peer t u \<Longrightarrow>
    calling_reaches net get_params peer s u"

definition start_calling :: "nat \<Rightarrow> ('e, 'n, 'k, 'w) ws_handler \<Rightarrow> ('e, 'n, 'k, 'w) calling" where
  "start_calling n h = \<lparr>outer = start_threads n h, inner = C_idle\<rparr>"

subsection \<open>What is invariant without these calls is invariant with them\<close>

lemma calling_step_invariant:
  assumes "main_invariant net get_params P" and "calling_step net get_params peer s t"
    and "P (handler (outer s)) (main (outer s))"
  shows "P (handler (outer t)) (main (outer t))"
  using assms(2)
proof (cases rule: calling_step.cases)
  case (goes_on u)
  with main_invariantD [OF assms(1) goes_on(3) assms(3)] show ?thesis by simp
next
  case (calls h pc)
  from client_step_frame [OF calls(3)] obtain e b where "h = (handler (outer s))\<lparr>m_stop := b, outside := e\<rparr>" by blast
  with assms(1,3) calls(1) show ?thesis by (simp add: main_invariant_def)
next
  case (client_beside i h pc)
  from client_step_frame [OF client_beside(3)] obtain e b where
    "h = (handler (outer s))\<lparr>m_stop := b, outside := e\<rparr>" by blast
  with assms(1,3) client_beside(1) show ?thesis by (simp add: main_invariant_def)
next
  case (world_beside e)
  have "(handler (outer s))\<lparr>outside := e\<rparr> = (handler (outer s))\<lparr>m_stop := m_stop (handler (outer s)), outside := e\<rparr>"
    by simp
  with assms(1,3) have "P ((handler (outer s))\<lparr>outside := e\<rparr>) (main (outer s))"
    unfolding main_invariant_def by metis
  with world_beside(1) show ?thesis by simp
qed

lemma calling_reaches_invariant:
  assumes "calling_reaches net get_params peer s t" and "main_invariant net get_params P"
    and "P (handler (outer s)) (main (outer s))"
  shows "P (handler (outer t)) (main (outer t))"
  using assms(1) by induction (use assms(2,3) calling_step_invariant in blast)+

subsection \<open>The calls of a callback are safe\<close>

text \<open>Past the test of the connection the client is there: only the thread in \<open>run\<close> destroys it, and that thread is
  in the call.\<close>

fun inner_safe :: "('e, 'n, 'k, 'w) ws_handler \<Rightarrow> client_pc \<Rightarrow> bool" where
  "inner_safe h C_idle \<longleftrightarrow> True"
| "inner_safe h C_stop \<longleftrightarrow> True"
| "inner_safe h C_dangling \<longleftrightarrow> False"
| "inner_safe h (C_ended b) \<longleftrightarrow> (\<exists>x. b = Terminate x)"
| "inner_safe h _ \<longleftrightarrow> m_websocket h \<noteq> None"

lemma inner_safe_cong: "m_websocket h' = m_websocket h \<Longrightarrow> inner_safe h' pc = inner_safe h pc"
  by (cases pc) simp_all

lemma connected_websocket: "is_connected h \<Longrightarrow> m_websocket h \<noteq> None"
  by (auto simp: is_connected_def split: option.splits)

lemma send_not_abort: "m_websocket h \<noteq> None \<Longrightarrow> on_socket (ws_send_message net m) h = (r, h') \<Longrightarrow> \<not> is_abort r"
  by (auto simp: on_socket_def split: prod.splits dest: ws_send_law)

lemma client_goes_safe: "\<not> is_abort r \<Longrightarrow> inner_safe h (client_goes r)"
  by (cases r) simp_all

lemma inner_step_safe:
  assumes "client_step net free (h, pc) (h', pc')" and "inner_safe h pc"
  shows "inner_safe h' pc'"
  using assms(1)
proof (cases rule: client_step.cases)
  case (send_locked m r)
  with send_not_abort [OF _ send_locked(4)] assms(2) show ?thesis by (simp add: client_goes_safe)
next
  case (call r)
  with send_not_abort [OF _ call(3)] assms(2) show ?thesis by (simp add: client_goes_safe)
qed (use assms(2) connected_websocket in auto)

lemma calling_step_inner:
  assumes "calling_step net get_params peer s t" and "inner_safe (handler (outer s)) (inner s)"
  shows "inner_safe (handler (outer t)) (inner t)"
  using assms(1)
proof (cases rule: calling_step.cases)
  case (calls h pc)
  with inner_step_safe [OF calls(3) assms(2)] show ?thesis by simp
next
  case (client_beside i h pc)
  from client_step_frame [OF client_beside(3)] obtain e b where
    "h = (handler (outer s))\<lparr>m_stop := b, outside := e\<rparr>" by blast
  then have "m_websocket h = m_websocket (handler (outer s))" by simp
  from inner_safe_cong [OF this] assms(2) client_beside(1) show ?thesis by simp
next
  case (world_beside e)
  have "m_websocket ((handler (outer s))\<lparr>outside := e\<rparr>) = m_websocket (handler (outer s))" by simp
  from inner_safe_cong [OF this] assms(2) world_beside(1) show ?thesis by simp
qed simp

lemma calling_reaches_inner:
  "calling_reaches net get_params peer (start_calling n h) t \<Longrightarrow> inner_safe (handler (outer t)) (inner t)"
  by (induction rule: calling_reaches.induct) (simp add: start_calling_def, rule calling_step_inner)

text \<open>What is possible without these calls is possible with them.\<close>

lemma reaches_calling:
  "reaches net get_params peer (start_threads n h) t \<Longrightarrow>
     calling_reaches net get_params peer (start_calling n h) \<lparr>outer = t, inner = C_idle\<rparr>"
proof (induction rule: reaches.induct)
  case here
  then show ?case using at_start [of net get_params peer "start_calling n h"] by (simp add: start_calling_def)
next
  case (further t u)
  from one_more [OF further.IH goes_on] further(2) show ?case by simp
qed

subsection \<open>The calls of a callback end\<close>

lemma runs_callback_frame [simp]:
  "runs_callback (h\<lparr>m_stop := b\<rparr>) pc = runs_callback h pc" "runs_callback (h\<lparr>outside := e\<rparr>) pc = runs_callback h pc"
  by (cases pc, simp_all)+

definition in_callback :: "('e, 'n, 'k, 'w) calling \<Rightarrow> bool" where
  "in_callback s \<longleftrightarrow> (inner s \<noteq> C_idle \<longrightarrow> runs_callback (handler (outer s)) (main (outer s)))"

lemma calling_step_in_callback:
  assumes "calling_step net get_params peer s t" and "in_callback s"
  shows "in_callback t"
  using assms(1)
proof (cases rule: calling_step.cases)
  case (calls h pc)
  from client_step_frame [OF calls(3)] obtain e b where "h = (handler (outer s))\<lparr>m_stop := b, outside := e\<rparr>" by blast
  with calls(1,2) show ?thesis by (simp add: in_callback_def)
next
  case (client_beside i h pc)
  from client_step_frame [OF client_beside(3)] obtain e b where
    "h = (handler (outer s))\<lparr>m_stop := b, outside := e\<rparr>" by blast
  with assms(2) client_beside(1) show ?thesis by (simp add: in_callback_def)
qed (use assms(2) in \<open>simp_all add: in_callback_def\<close>)

lemma calling_reaches_in_callback:
  "calling_reaches net get_params peer (start_calling n h) t \<Longrightarrow> in_callback t"
  by (induction rule: calling_reaches.induct)
     (simp add: start_calling_def in_callback_def, rule calling_step_in_callback)

fun call_left :: "client_pc \<Rightarrow> nat" where
  "call_left C_stop = 3"
| "call_left C_exit = 2"
| "call_left C_call = 1"
| "call_left (C_send m) = 1"
| "call_left _ = 0"

lemma client_goes_left: "call_left (client_goes r) = 0"
  by (cases r) simp_all

lemma call_goes_on:
  assumes "inner_safe h pc" and "client_alive pc" and "pc \<noteq> C_idle"
  shows "\<exists>h' pc'. client_step net True (h, pc) (h', pc') \<and> call_left pc' < call_left pc"
proof (cases pc)
  case (C_send m)
  obtain r h' where "on_socket (ws_send_message net m) h = (r, h')" by (metis prod.collapse)
  from send_locked [OF TrueI this] C_send client_goes_left [of r] show ?thesis by fastforce
next
  case C_stop
  with stop_test [of True net h] show ?thesis by (cases "is_connected h") fastforce+
next
  case C_exit
  with exit [of net True h] assms(1) show ?thesis by fastforce
next
  case C_call
  obtain r h' where "on_socket (ws_send_message net ''Exit'') h = (r, h')" by (metis prod.collapse)
  from call [where free = True, OF this] C_call client_goes_left [of r] show ?thesis by fastforce
qed (use assms in simp_all)

subsection \<open>Properties\<close>

text \<open>C13. A callback may call \<open>send_message\<close> and \<open>stop\<close> of the handler that runs it. Such a call, unlike the same
  call from another thread, never meets a null or destroyed client; each of its steps is possible when it is
  its turn, whatever the others have done, and brings it nearer to its end; and sessions are seen as before,
  whatever the callbacks and the other threads call.\<close>

theorem callbacks_may_call:
  assumes "marks I tr f c d" and "I w" and "tr w = []"
    and "calling_reaches net get_params peer
           (start_calling n (with_callbacks (Some f) (Some c) (Some d) (lcu_websocket_handler e w))) s"
  shows "(\<forall>b. inner s = C_ended b \<longrightarrow> (\<exists>x. b = Terminate x)) \<and>
     (calling_alive s \<and> inner s \<noteq> C_idle \<longrightarrow>
        (\<exists>t. calling_step net get_params peer s t \<and> main (outer t) = main (outer s) \<and>
           call_left (inner t) < call_left (inner s))) \<and>
     session False (tr (user (handler (outer s)))) = Some (m_is_state_connected (handler (outer s)))"
proof -
  let ?h = "with_callbacks (Some f) (Some c) (Some d) (lcu_websocket_handler e w)"
  have "safe_in_session I tr (handler (outer s)) (main (outer s))"
    by (rule calling_reaches_invariant [OF assms(4) safe_in_session_invariant])
       (simp add: start_calling_def start_threads_def start_safe_in_session [OF assms(1-3)])
  moreover note safe = calling_reaches_inner [OF assms(4)]
  moreover have "\<exists>t. calling_step net get_params peer s t \<and> main (outer t) = main (outer s) \<and>
      call_left (inner t) < call_left (inner s)" if "calling_alive s" and "inner s \<noteq> C_idle"
  proof -
    from calling_reaches_in_callback [OF assms(4)] that(2) have
      run: "runs_callback (handler (outer s)) (main (outer s))" by (simp add: in_callback_def)
    from that(1) have "client_alive (inner s)" by (simp add: calling_alive_def)
    from call_goes_on [OF safe this that(2), of net] obtain h' pc' where
      step: "client_step net True (handler (outer s), inner s) (h', pc')" "call_left pc' < call_left (inner s)" by blast
    note calls [where s = s and net = net, unfolded callback_unlocked [OF run]]
    from this [OF run step(1) that(1)] step(2) show ?thesis
      by (intro exI conjI) (assumption, simp_all)
  qed
  ultimately show ?thesis by (auto simp: safe_in_session_def main_in_session_def tracked_def)
qed

text \<open>The witness: the connection callback sends a message, the usual place to subscribe.\<close>

theorem callbacks_may_call_witness:
  "\<exists>s t. calling_reaches scripted_ws there_while still (start_calling 1 fresh) s \<and> main (outer s) = M_found \<and>
     inner s = C_send ''hello'' \<and> calling_step scripted_ws there_while still s t \<and> call_left (inner t) = 0"
proof -
  let ?h = "fresh\<lparr>m_websocket := Some open_client\<rparr>"
  let ?s = "\<lparr>outer = \<lparr>handler = ?h, main = M_found, clients = [C_idle]\<rparr>, inner = C_idle\<rparr>"
  let ?t = "?s\<lparr>inner := C_send ''hello''\<rparr>"
  have "reaches scripted_ws there_while still (start_threads 1 fresh) \<lparr>handler = ?h, main = M_found, clients = [C_idle]\<rparr>"
    using finding_run [OF fresh_inv, of scripted_ws there_while ?h still 1] scripted_reconnect [of fresh there_while]
    by (simp add: fresh_simps there_while_def is_connected_def)
  note s = reaches_calling [OF this]
  have "is_connected ?h" using met_facts(2) by (simp add: met_def is_connected_def)
  then have "client_step scripted_ws True (?h, C_idle) (?h, C_send ''hello'')" using send [of True scripted_ws ?h] by simp
  moreover have "runs_callback ?h M_found" by (simp add: fresh_simps)
  ultimately have "calling_step scripted_ws there_while still ?s ?t"
    using calls [of ?s scripted_ws ?h "C_send ''hello''" there_while still] by (simp add: calling_alive_def)
  from one_more [OF s this] have t: "calling_reaches scripted_ws there_while still (start_calling 1 fresh) ?t" .
  from callbacks_may_call [OF recorded_marks _ _ t [unfolded fresh_def]] obtain u where
    "calling_step scripted_ws there_while still ?t u" "call_left (inner u) < 1"
    by (auto simp: calling_alive_def fresh_def)
  with t show ?thesis by (intro exI [of _ ?t] exI [of _ u]) simp
qed

end
