(* ===== verification/Spec2Isabelle.thy ===== *)
theory Spec2Isabelle
  imports Riot_Rest Lcu_Rest Rest_Traffic Lcu_Process_Linux Lcu_Process_Windows Lcu_Wamp Lcu_Wamp_Threads
    Lcu_Websocket_Pace Lcu_Websocket_Races Lcu_Websocket_Destroy Lcu_Websocket_Callbacks
begin

text \<open>
  Rito is a C++ library that talks to the servers of Riot Games and to a running League of Legends
  client (LCU). This development models its implementation, \<open>src/\<close> and the headers it needs under
  \<open>include/rito/\<close>, and proves what makes its parts correct, or where they are not.

  The program. Applications use four classes. \<open>Riot_rest_handler\<close> sends HTTPS requests to the host of
  a region. \<open>Lcu_rest_handler\<close> sends them to the local client, whose port and token
  \<open>Lcu_process_handler\<close> reads off the client's command line. Both own an \<open>Https_rest_client\<close> and
  reconnect once when a request fails. \<open>Lcu_websocket_handler\<close> keeps a websocket
  (\<open>Https_websocket_client\<close>) to the local client: \<open>run\<close> polls it in one thread and reports connection
  changes and messages to callbacks, while other threads call \<open>send_message\<close> and \<open>stop\<close>.
  \<open>Lcu_wamp_handler\<close> puts the WAMP protocol on top: it dispatches incoming JSON arrays to callbacks and
  writes outgoing ones.

  The theories, from the bottom:
  \<^item> \<open>Rito_Prelude\<close>: results of C++ operations (a value, an exception in flight, the end of the program)
    and their combinators, decimal rendering, substring search. \<open>keeps\<close>, \<open>never_aborts\<close> and the
    collections \<open>no_abort\<close> and \<open>op_simps\<close> carry the component proofs.
  \<^item> \<open>Rito_Types\<close>: \<open>exception.h\<close> and \<open>common_types.h\<close>; the exceptions of POCO and of the standard
    library that a \<open>catch\<close> clause tells apart; calls of code outside the repository (\<open>ext\<close>).
  \<^item> \<open>Std_Regex\<close>: the part of \<open>std::regex_search\<close> (ECMAScript, leftmost, backtracking) that the two
    patterns of the code use, and what such a search finds.
  \<^item> \<open>Lcu_Params\<close>: \<open>lcu_process_handler_helpers.cpp\<close>, \<open>std::stoi\<close>, the narrowing of the port. Locale
    \<open>param_extractor\<close>, interpreted on the two extractions.
  \<^item> \<open>Lcu_Process_Linux\<close>: the Linux process handler over a file system. Locale \<open>lcu_process_handler\<close>, the
    contract the clients rely on, interpreted on it.
  \<^item> \<open>Lcu_Process_Windows\<close>: the Windows process handler over the Windows API, with ledgers of the process
    handles and of the library it holds.
  \<^item> \<open>Https_Rest\<close>: \<open>https_rest_client.cpp\<close> over POCO's HTTPS session, compared with the reference
    \<open>wire_request\<close> in POCO's terms only.
  \<^item> \<open>Rest_Retry\<close>: the reconnect-once contract as the locales \<open>reconnecting_handler\<close> and
    \<open>counted_handler\<close>, and the reference for it, attempts in turn (\<open>first_answer\<close>) on the wire, interpreted in \<open>Riot_Rest\<close> (\<open>riot_rest_handler.cpp\<close>, with the values of
    \<open>Region\<close> that have no name) and in \<open>Lcu_Rest\<close> (\<open>lcu_rest_handler.cpp\<close>). \<open>Rest_Traffic\<close>:
    where the two handlers send the API key and the token, over any sequence of calls.
  \<^item> \<open>Https_Websocket\<close>: \<open>https_websocket_client.cpp\<close> over POCO's websocket. The receive loop is compared
    with the reference \<open>assemble\<close>; locale \<open>ws_transport\<close> is its contract.
  \<^item> \<open>Lcu_Websocket\<close>: \<open>lcu_websocket_handler.cpp\<close>, one call at a time, with stop requests between the
    rounds of the loop; the callback protocol \<open>session\<close>; locale \<open>message_sender\<close>.
  \<^item> \<open>Lcu_Websocket_Pace\<close>: when that loop looks for the client, when it sleeps, and how a lost connection
    comes back.
  \<^item> \<open>Lcu_Websocket_Threads\<close>: the same object under the thread in \<open>run\<close>, any number of calling threads and a
    world that moves on its own (\<open>peer\<close>), as a step relation. A step is a block under the mutex (that of
    \<open>reconnect\<close> is four), an access to \<open>m_stop\<close>, one call of \<open>receiveFrame\<close>, a callback, a sleep, or an
    access to \<open>m_websocket\<close> outside the mutex; a thread waits where \<open>receiveFrame\<close> has nothing to read
    (\<open>ws_ready\<close>) and for the mutex. Safety of the thread in \<open>run\<close>, sessions, no deadlock, and that alone it
    does what the loop of \<open>Lcu_Websocket\<close> does.
  \<^item> \<open>Lcu_Websocket_Stop\<close>: that a stop is heeded, within a bound, and ends a wait for a frame.
  \<^item> \<open>Lcu_Websocket_Races\<close>: how calling threads come to a null pointer or a destroyed client.
  \<^item> \<open>Lcu_Websocket_Destroy\<close>: the handler's lifetime, and the destructor, which does not wait for \<open>run\<close>.
  \<^item> \<open>Lcu_Websocket_Callbacks\<close>: callbacks that call \<open>send_message\<close> and \<open>stop\<close> of their own handler, which is
    safe; what these calls return does not enter the model of the callback.
  \<^item> \<open>Lcu_Wamp\<close>: \<open>lcu_wamp_handler.h\<close> and \<open>.cpp\<close>, with a reader for the messages it writes and a
    reference for the ones it dispatches; \<open>Lcu_Wamp_Threads\<close> puts it under the threads.

  This theory composes them: the parameters the process handlers find, and what the REST and the
  websocket handler make of them.

  How state and effects correspond. An object is a record with the class's fields; a member function is a
  function from the object and the environment to a result and the new pair, so that an exception
  thrown in the middle keeps the changes made before it. The environment \<open>'e\<close> and the functions on it
  (records \<open>poco_http\<close>, \<open>poco_ws\<close>, \<open>poco_json\<close>, \<open>win_api\<close>, \<open>proc_fs\<close>) stand for POCO, Windows and the
  file system; what a theorem needs of them is among its assumptions (\<open>delivers\<close>, \<open>poco_errors\<close>,
  \<open>counts_handles\<close>, \<open>counts_libraries\<close>, \<open>shutdown_returns\<close>, \<open>accepts_frames\<close>, \<open>answers_exit\<close>, \<open>reachable_client\<close>, \<open>remembers_address\<close>), and small concrete instances show that it can hold. A
  callback is a function on the user's state. \<open>noexcept\<close> functions and destructors turn an exception
  into \<open>Abort (Terminate x)\<close>; dereferencing a null \<open>unique_ptr\<close> is \<open>Abort Null_dereference\<close>,
  using an object another thread has destroyed \<open>Abort Use_after_free\<close>.

  Bounds and fuel. The receive loop counts in an 8-bit word up to 255 as the code does, and its
  termination is proved with that word; ports are 16-bit words. The matcher for \<open>+\<close> in \<open>Std_Regex\<close> has
  fuel, the length of the text, and a lemma there that more changes nothing. \<open>main_loop\<close> may run for
  ever: it is defined over a list of rounds, each with the observation whether a stop was requested,
  and the theorems speak about all lists; \<open>run_ends_exactly_on_stop\<close> says when it ends.
  Under threads a stop request leaves the thread in \<open>run\<close> at most 262 steps: 255 frames of one message,
  the end of its receive loop, and the steps of the round and of leaving around it (\<open>steps_left\<close>).

  Not modelled: how long anything takes (a sleep is an event with its length, a timeout of POCO an
  exception), TLS contexts and the bytes on the wire, failing memory allocation, two operations of POCO
  on one socket at the same moment, data races on \<open>m_stop\<close> and on \<open>m_connected\<close> beyond interleaving, a
  second \<open>run\<close> at the same time, a registration of callbacks while \<open>run\<close> runs, accesses of \<open>stop\<close> between
  the making of a client in \<open>reconnect\<close> and its credentials, the freeing of local buffers on Windows. The tests and the
  build files are not part of the model.
\<close>

subsection \<open>The components together\<close>

text \<open>Parameters that fit into an \<open>Authorization\<close> header and need no escaping anywhere.\<close>

definition token_char :: "char \<Rightarrow> bool" where
  "token_char c \<longleftrightarrow> isdigit c \<or> (of_char c :: nat) \<in> {97..122} \<or> (of_char c :: nat) \<in> {65..90} \<or>
     c = CHR ''-'' \<or> c = CHR ''_''"

definition well_formed_parameters :: "lcu_parameters \<Rightarrow> bool" where
  "well_formed_parameters p \<longleftrightarrow> remoting_auth_token p \<noteq> [] \<and> list_all token_char (remoting_auth_token p)"

lemma in_token_class_char: "in_class token_class c \<longleftrightarrow> token_char c"
proof -
  have "(of_char c :: nat) = 45 \<longleftrightarrow> c = CHR ''-''" "(of_char c :: nat) = 95 \<longleftrightarrow> c = CHR ''_''"
    using of_char_eq_iff [where ?'a = nat, of c "CHR ''-''"] of_char_eq_iff [where ?'a = nat, of c "CHR ''_''"] by simp_all
  then show ?thesis by (auto simp: in_token_class token_char_def)
qed

lemma params_well_formed: "lcu_parameters_of_command s = Inr p \<Longrightarrow> well_formed_parameters p"
  by (drule params_token) (simp add: well_formed_parameters_def in_token_class_char list_all_iff)

lemma linux_handler_command:
  assumes "linux_handler fs_of d e = (Inr p, e')"
  shows "\<exists>cmd ds. get_lcu_process_command (fs_of e) d = Inr cmd \<and> lcu_parameters_of_command cmd = Inr p \<and>
     first_param token_label token_class cmd (remoting_auth_token p) \<and>
     first_param port_label digit_class cmd ds \<and> app_port p = of_nat (decimal ds)"
proof -
  from assms obtain cmd where "get_lcu_process_command (fs_of e) d = Inr cmd"
    and p: "lcu_parameters_of_command cmd = Inr p"
    by (auto simp: linux_handler_def get_lcu_process_parameters_def split: sum.splits)
  moreover from p obtain ds where "first_param token_label token_class cmd (remoting_auth_token p)"
    "first_param port_label digit_class cmd ds" "app_port p = of_nat (decimal ds)"
    by (auto simp: lcu_parameters_of_command_cases token.found port.found split: sum.splits if_splits)
  ultimately show ?thesis by blast
qed

lemma win_handler_command:
  assumes "win_get_lcu_process_parameters api s = (Ok p, t)"
  shows "\<exists>cmd. lcu_parameters_of_command cmd = Inr p"
  using assms
  by (auto simp: win_get_lcu_process_parameters_def andthen_def of_sum_def split: prod.splits res.splits sum.splits)

text \<open>C23. On both platforms the parameters that come out are well formed: the token is not empty and has letters,
  digits, \<open>-\<close> and \<open>_\<close> only, so that the credentials made of it hold no colon, blank or line break.\<close>

theorem parameters_well_formed:
  assumes "linux_handler fs_of d e = (Inr p, e') \<or> win_get_lcu_process_parameters api s = (Ok p, t)"
  shows "well_formed_parameters p \<and> CHR '':'' \<notin> set (remoting_auth_token p) \<and>
     list_all (\<lambda>c. 32 < (of_char c :: nat) \<and> (of_char c :: nat) < 127) (remoting_auth_token p)"
proof -
  from assms obtain cmd where "lcu_parameters_of_command cmd = Inr p"
    by (auto dest!: linux_handler_command win_handler_command)
  then have w: "well_formed_parameters p" by (rule params_well_formed)
  moreover have "c \<noteq> CHR '':'' \<and> 32 < (of_char c :: nat) \<and> (of_char c :: nat) < 127" if "token_char c" for c
    using that by (auto simp: token_char_def isdigit_def)
  ultimately show ?thesis by (auto simp: well_formed_parameters_def list_all_iff)
qed

text \<open>C21. On Linux the websocket is opened with what the running League client was started with: when
  \<open>reconnect\<close> returns, the client's port and credentials are the port and the token on the command
  line of the process found under \<open>proc_dir\<close> at that moment, and the token is never empty.\<close>

theorem linux_websocket_credentials:
  assumes "handler_inv s" and "\<not> is_connected s"
    and "reconnect net (linux_handler fs_of d) s = (Ok (), t)"
  shows "\<exists>cmd tok ds c. get_lcu_process_command (fs_of (outside s)) d = Inr cmd \<and>
     first_param token_label token_class cmd tok \<and> first_param port_label digit_class cmd ds \<and>
     m_websocket t = Some c \<and> wc_host c = ''127.0.0.1'' \<and> wc_port c = of_nat (decimal ds) \<and>
     wc_request c = [(''riot'', tok)] \<and> tok \<noteq> []"
proof -
  from reconnect_result [OF assms] obtain p e c where
    p: "linux_handler fs_of d (outside s) = (Inr p, e)" and
    c: "m_websocket t = Some c" "wc_host c = ''127.0.0.1''" "wc_port c = app_port p"
      "wc_request c = [(''riot'', remoting_auth_token p)]" by auto
  from linux.token_valid [OF p] have "remoting_auth_token p \<noteq> []" by simp
  with linux_handler_command [OF p] c show ?thesis by auto
qed

text \<open>C22. The same for requests: the first request of a new \<open>Lcu_rest_handler\<close> that is answered opens one session,
  to \<open>127.0.0.1\<close> and the port on the command line of the process found, and sends one HTTP request with the
  user \<open>riot\<close> and the token on that command line as credentials.\<close>

theorem linux_rest_credentials:
  assumes "\<And>u p. cred_empty net u p \<longleftrightarrow> u = [] \<and> p = []"
    and "lcu_request (logged_http net) (on_fst (linux_handler fs_of d)) ty msg (lcu_rest_handler, (e, [])) =
           (Ok r, (h', (e', l)))"
  shows "\<exists>s m cmd tok ds. to_poco_request_type ty = Inr m \<and> get_lcu_process_command (fs_of e) d = Inr cmd \<and>
     first_param token_label token_class cmd tok \<and> first_param port_label digit_class cmd ds \<and>
     l = [Opened ''127.0.0.1'' (of_nat (decimal ds)),
          Sent s \<lparr>req_method = m, req_uri = msg, req_version = HTTP_1_1,
            req_calls = [SetHost ''127.0.0.1'' (of_nat (decimal ds)), SetKeepAlive True, Authenticate ''riot'' tok]\<rparr>,
          http_event.Received s]"
proof -
  have "lcu_handler.lcu_client lcu_rest_handler = None" by (simp add: lcu_rest_handler_def)
  from lcu_first_request [OF assms(1) this assms(2)] obtain s m p e1 where
    ty: "to_poco_request_type ty = Inr m" and p: "linux_handler fs_of d e = (Inr p, e1)" and
    l: "l = [Opened ''127.0.0.1'' (app_port p),
          Sent s \<lparr>req_method = m, req_uri = msg, req_version = HTTP_1_1,
            req_calls = [SetHost ''127.0.0.1'' (app_port p), SetKeepAlive True,
              Authenticate ''riot'' (remoting_auth_token p)]\<rparr>,
          http_event.Received s]" by auto
  from linux_handler_command [OF p] obtain cmd ds where
    "get_lcu_process_command (fs_of e) d = Inr cmd" "first_param token_label token_class cmd (remoting_auth_token p)"
    "first_param port_label digit_class cmd ds" "app_port p = of_nat (decimal ds)" by blast
  with ty l show ?thesis by auto
qed

subsection \<open>A running League client for the witnesses\<close>

definition running_fs :: proc_fs where
  "running_fs = \<lparr>directory = (\<lambda>_. Dir_entry ''42'' Dir_end), read_file = (\<lambda>_. Some
     ''LeagueClientUx.exe --remoting-auth-token=tok --app-port=12345 '')\<rparr>"

lemma running_fs_handler:
  "linux_handler (\<lambda>_. running_fs) ''/proc'' e = (Inr \<lparr>remoting_auth_token = ''tok'', app_port = 12345\<rparr>, e)"
proof -
  let ?cmd = "''LeagueClientUx.exe --remoting-auth-token=tok --app-port=12345 ''"
  have "get_lcu_process_command running_fs ''/proc'' = Inr ?cmd"
    by (simp add: get_lcu_process_command_def stem_def is_positive_integer_def isdigit_def running_fs_def
        first_line_def lcu_executable_def)
  moreover have "extract_remoting_auth_token ?cmd = Inr ''tok''" "extract_app_port ?cmd = Inr ''12345''"
    by (simp_all add: eval_extract in_token_class isdigit_def)
  moreover have "decimal ''12345'' = 12345" by (simp add: decimal_def digit_val_def)
  ultimately show ?thesis
    by (simp add: linux_handler_def get_lcu_process_parameters_def lcu_parameters_of_command_cases)
qed

theorem parameters_well_formed_witness:
  "well_formed_parameters \<lparr>remoting_auth_token = ''tok'', app_port = 12345\<rparr> \<and> CHR '':'' \<notin> set ''tok''"
  using parameters_well_formed [OF disjI1 [OF running_fs_handler]] by simp

theorem linux_websocket_credentials_witness:
  "\<exists>t c. reconnect scripted_ws (linux_handler (\<lambda>_. running_fs) ''/proc'') (open_handler False None None ()) =
     (Ok (), t) \<and> m_websocket t = Some c \<and> wc_host c = ''127.0.0.1''"
proof -
  let ?s = "open_handler False None None ()"
  obtain t where t: "reconnect scripted_ws (linux_handler (\<lambda>_. running_fs) ''/proc'') ?s = (Ok (), t)"
    by (simp add: reconnect_disconnected running_fs_handler on_socket_def scripted_ws_def ws_start_def lcu_client_def
        andthen_def try_catch_def on_env_def lift_ext_def set_websocket_def set_connected_def)
  from linux_websocket_credentials [OF _ _ t] t show ?thesis by auto
qed

theorem linux_rest_credentials_witness:
  "\<exists>r h' e' l. lcu_request (logged_http answering_http) (on_fst (linux_handler (\<lambda>_. running_fs) ''/proc'')) Http_get ''/x''
       (lcu_rest_handler, (0, [])) = (Ok r, (h', (e', l))) \<and>
     (\<exists>cmd tok. get_lcu_process_command running_fs ''/proc'' = Inr cmd \<and>
        first_param token_label token_class cmd tok \<and> length l = 3)"
proof -
  obtain r h' e' l where r: "lcu_request (logged_http answering_http) (on_fst (linux_handler (\<lambda>_. running_fs) ''/proc''))
      Http_get ''/x'' (lcu_rest_handler, (0, [])) = (Ok r, (h', (e', l)))"
    by (simp add: lcu_branches running_fs_handler eval_lcu)
  have "cred_empty answering_http u p \<longleftrightarrow> u = [] \<and> p = []" for u p by (simp add: answering_http_def)
  from linux_rest_credentials [OF this r] r show ?thesis by auto
qed

end
